theory Spec2Isabelle
  imports Main
begin

section \<open>Terms of concurrent Kleene algebra\<close>

text \<open>
  The closed terms of \<^verbatim>\<open>wcka.py\<close>: one constructor per concrete subclass of
  \<^verbatim>\<open>ClosedTerm\<close>. The class \<^verbatim>\<open>Variable\<close> is not a closed term; it only occurs
  when a linear system is printed, and is represented here by its place in the
  precedence list alone.
\<close>

datatype cka =
    Zero
  | One
  | Primitive string
  | Choice cka cka
  | Sequential cka cka
  | Parallel cka cka
  | Star cka

datatype cls =
  ClsZero | ClsOne | ClsPrimitive | ClsVariable | ClsStar | ClsSequential | ClsParallel | ClsChoice

datatype error = TypeError | KeyError | AttributeError | StopIteration | OutOfFuel

fun class_of :: "cka \<Rightarrow> cls" where
  "class_of Zero = ClsZero"
| "class_of One = ClsOne"
| "class_of (Primitive c) = ClsPrimitive"
| "class_of (Choice l r) = ClsChoice"
| "class_of (Sequential l r) = ClsSequential"
| "class_of (Parallel l r) = ClsParallel"
| "class_of (Star b) = ClsStar"

subsection \<open>Printed form, equality, containment\<close>

definition order :: "cls list" where
  "order = [ClsZero, ClsOne, ClsPrimitive, ClsVariable, ClsStar, ClsSequential, ClsParallel, ClsChoice]"

fun index :: "'a list \<Rightarrow> 'a \<Rightarrow> nat option" where
  "index [] a = None"
| "index (x # xs) a = (if x = a then Some 0 else map_option Suc (index xs a))"

definition precedes :: "cls \<Rightarrow> cls \<Rightarrow> bool" where
  "precedes a b =
     (case index order a of
        None \<Rightarrow> False
      | Some i \<Rightarrow> (case index order b of None \<Rightarrow> False | Some j \<Rightarrow> i \<le> j))"

text \<open>The operator of \<^verbatim>\<open>Parallel\<close> is the character U+2016, three bytes in UTF-8.\<close>

definition parallel_operator :: string where
  "parallel_operator = [CHR 0xE2, CHR 0x80, CHR 0x96]"

fun str :: "cka \<Rightarrow> string"
and bracket :: "cka \<Rightarrow> cls \<Rightarrow> string" where
  "str Zero = ''0''"
| "str One = ''1''"
| "str (Primitive letter) = letter"
| "str (Choice l r) = bracket l ClsChoice @ '' + '' @ bracket r ClsChoice"
| "str (Sequential l r) = bracket l ClsSequential @ [] @ bracket r ClsSequential"
| "str (Parallel l r) = bracket l ClsParallel @ parallel_operator @ bracket r ClsParallel"
| "str (Star beneath) = bracket beneath ClsStar @ ''*''"
| "bracket t next_op =
     (if precedes (class_of t) next_op then str t else ''('' @ str t @ '')'')"

definition eq :: "cka \<Rightarrow> cka \<Rightarrow> bool" where
  "eq a b = (str a = str b)"

text \<open>\<open>contains self t\<close> is the test \<^verbatim>\<open>t in self\<close>, dispatched on the class of \<open>self\<close>.\<close>

fun contains :: "cka \<Rightarrow> cka \<Rightarrow> bool" where
  "contains (Choice l r) t = (eq (Choice l r) t \<or> contains l t \<or> contains r t)"
| "contains (Parallel l r) other =
     (case other of
        Parallel left right \<Rightarrow>
          (contains l left \<and> contains r right) \<or> (contains r left \<and> contains l right)
      | _ \<Rightarrow> eq (Parallel l r) other)"
| "contains (Star beneath) other =
     (if other = One then True
      else if contains beneath other then True
      else eq (Star beneath) other)"
| "contains self t = eq self t"

subsection \<open>Smart constructors\<close>

definition Term_add :: "cka \<Rightarrow> cka \<Rightarrow> cka" where
  "Term_add self other =
     (if other = Zero then self
      else if self = Zero then other
      else if contains self other then self
      else if contains other self then other
      else Choice self other)"

text \<open>The test \<^verbatim>\<open>type(a) is Star and a.beneath == b\<close>.\<close>

definition star_over :: "cka \<Rightarrow> cka \<Rightarrow> bool" where
  "star_over a b = (case a of Star beneath \<Rightarrow> eq beneath b | _ \<Rightarrow> False)"

definition One_add :: "cka \<Rightarrow> cka \<Rightarrow> cka" where
  "One_add self other =
     (case other of
        Sequential left right \<Rightarrow>
          (if star_over left right then left
           else if star_over right left then right
           else Term_add self other)
      | _ \<Rightarrow> Term_add self other)"

definition Sequential_add :: "cka \<Rightarrow> cka \<Rightarrow> cka" where
  "Sequential_add self other =
     (case self of
        Sequential left right \<Rightarrow>
          (if other = One then
             (if star_over left right then left
              else if star_over right left then right
              else Term_add self other)
           else Term_add self other)
      | _ \<Rightarrow> Term_add self other)"

text \<open>\<open>add a b\<close> is \<^verbatim>\<open>a + b\<close>: the method of the class of \<open>a\<close>.\<close>

definition add :: "cka \<Rightarrow> cka \<Rightarrow> cka" where
  "add self other =
     (case self of
        One \<Rightarrow> One_add self other
      | Sequential l r \<Rightarrow> Sequential_add self other
      | _ \<Rightarrow> Term_add self other)"

text \<open>\<open>pow a b\<close> is \<^verbatim>\<open>a ** b\<close>, the sequential composition.\<close>

definition pow :: "cka \<Rightarrow> cka \<Rightarrow> cka" where
  "pow self other =
     (if other = One then self
      else if self = One then other
      else if other = Zero then Zero
      else if self = Zero then Zero
      else Sequential self other)"

text \<open>\<open>floordiv a b\<close> is \<^verbatim>\<open>a // b\<close>, the parallel composition.\<close>

definition floordiv :: "cka \<Rightarrow> cka \<Rightarrow> cka" where
  "floordiv self other =
     (if other = One then self
      else if self = One then other
      else if other = Zero then Zero
      else if self = Zero then Zero
      else Parallel self other)"

fun star :: "cka \<Rightarrow> cka" where
  "star (Star beneath) = Star beneath"
| "star One = One"
| "star Zero = One"
| "star t = Star t"

text \<open>\<^verbatim>\<open>sum(items, start)\<close>: the items are added to \<open>start\<close> from the left.\<close>

definition sum_terms :: "cka list \<Rightarrow> cka \<Rightarrow> cka" where
  "sum_terms items start = foldl add start items"

subsection \<open>Structural predicates and measures\<close>

fun nullable :: "cka \<Rightarrow> bool" where
  "nullable Zero = False"
| "nullable One = True"
| "nullable (Primitive c) = False"
| "nullable (Choice l r) = (nullable l \<or> nullable r)"
| "nullable (Sequential l r) = (nullable l \<and> nullable r)"
| "nullable (Parallel l r) = (nullable l \<and> nullable r)"
| "nullable (Star b) = True"

text \<open>
  \<^verbatim>\<open>Zero.is_trivial\<close> is declared without a \<^verbatim>\<open>self\<close> parameter, so the call
  \<^verbatim>\<open>Zero().is_trivial()\<close> raises \<^verbatim>\<open>TypeError\<close>. \<^verbatim>\<open>and\<close> and \<^verbatim>\<open>or\<close> evaluate
  their right operand only when the left one does not decide the result.
\<close>

fun is_trivial :: "cka \<Rightarrow> error + bool" where
  "is_trivial Zero = Inl TypeError"
| "is_trivial One = Inr False"
| "is_trivial (Primitive c) = Inr False"
| "is_trivial (Choice l r) =
     (case is_trivial l of
        Inl e \<Rightarrow> Inl e
      | Inr b \<Rightarrow> if b then is_trivial r else Inr False)"
| "is_trivial (Sequential l r) =
     (case is_trivial l of
        Inl e \<Rightarrow> Inl e
      | Inr b \<Rightarrow> if b then Inr True else is_trivial r)"
| "is_trivial (Parallel l r) =
     (case is_trivial l of
        Inl e \<Rightarrow> Inl e
      | Inr b \<Rightarrow> if b then Inr True else is_trivial r)"
| "is_trivial (Star b) = Inr False"

fun width :: "cka \<Rightarrow> error + nat"
and nontrivial_width :: "cka \<Rightarrow> error + nat" where
  "width t =
     (case is_trivial t of
        Inl e \<Rightarrow> Inl e
      | Inr triv \<Rightarrow> if triv then Inr 0 else nontrivial_width t)"
| "nontrivial_width Zero = Inr 0"
| "nontrivial_width One = Inr 0"
| "nontrivial_width (Primitive c) = Inr 1"
| "nontrivial_width (Choice l r) =
     (case width l of
        Inl e \<Rightarrow> Inl e
      | Inr wl \<Rightarrow> (case width r of Inl e \<Rightarrow> Inl e | Inr wr \<Rightarrow> Inr (max wl wr)))"
| "nontrivial_width (Sequential l r) =
     (case width l of
        Inl e \<Rightarrow> Inl e
      | Inr wl \<Rightarrow> (case width r of Inl e \<Rightarrow> Inl e | Inr wr \<Rightarrow> Inr (max wl wr)))"
| "nontrivial_width (Parallel l r) =
     (case width l of
        Inl e \<Rightarrow> Inl e
      | Inr wl \<Rightarrow> (case width r of Inl e \<Rightarrow> Inl e | Inr wr \<Rightarrow> Inr (wl + wr)))"
| "nontrivial_width (Star b) = width b"


subsection \<open>Sets and dictionaries of terms\<close>

text \<open>
  \<^verbatim>\<open>Term.__eq__\<close> and \<^verbatim>\<open>Term.__hash__\<close> go through the printed form, so a Python
  set of terms holds one element for each printed form, the one added first. A set is
  a list without two elements of the same key; the key is \<open>str\<close> for terms and
  \<open>pair_str\<close> for pairs of terms. Python leaves the iteration order of a set open;
  here it is the order of insertion.
\<close>

definition pair_str :: "cka \<times> cka \<Rightarrow> string \<times> string" where
  "pair_str p = (str (fst p), str (snd p))"

definition set_member :: "('a \<Rightarrow> 'k) \<Rightarrow> 'a list \<Rightarrow> 'a \<Rightarrow> bool" where
  "set_member key xs x = (key x \<in> set (map key xs))"

definition set_add :: "('a \<Rightarrow> 'k) \<Rightarrow> 'a list \<Rightarrow> 'a \<Rightarrow> 'a list" where
  "set_add key xs x = (if set_member key xs x then xs else xs @ [x])"

definition set_of :: "('a \<Rightarrow> 'k) \<Rightarrow> 'a list \<Rightarrow> 'a list" where
  "set_of key xs = foldl (set_add key) [] xs"

definition set_union :: "('a \<Rightarrow> 'k) \<Rightarrow> 'a list \<Rightarrow> 'a list \<Rightarrow> 'a list" where
  "set_union key xs ys = foldl (set_add key) xs ys"

definition set_minus :: "('a \<Rightarrow> 'k) \<Rightarrow> 'a list \<Rightarrow> 'a list \<Rightarrow> 'a list" where
  "set_minus key xs ys = filter (\<lambda>x. \<not> set_member key ys x) xs"

text \<open>A dictionary is an association list; a key is found by its printed form.\<close>

fun getitem :: "('k \<Rightarrow> 's) \<Rightarrow> ('k \<times> 'v) list \<Rightarrow> 'k \<Rightarrow> error + 'v" where
  "getitem key [] k = Inl KeyError"
| "getitem key ((k', v) # d) k = (if key k' = key k then Inr v else getitem key d k)"

fun setitem :: "('k \<Rightarrow> 's) \<Rightarrow> ('k \<times> 'v) list \<Rightarrow> 'k \<Rightarrow> 'v \<Rightarrow> ('k \<times> 'v) list" where
  "setitem key [] k v = [(k, v)]"
| "setitem key ((k', v') # d) k v =
     (if key k' = key k then (k', v) # d else (k', v') # setitem key d k v)"

definition dict_of :: "('k \<Rightarrow> 's) \<Rightarrow> ('k \<times> 'v) list \<Rightarrow> ('k \<times> 'v) list" where
  "dict_of key items = foldl (\<lambda>d (k, v). setitem key d k v) [] items"

text \<open>Raising is \<open>Inl\<close>; \<open>bind_error\<close> passes the first error on.\<close>

definition bind_error :: "error + 'a \<Rightarrow> ('a \<Rightarrow> error + 'b) \<Rightarrow> error + 'b" where
  "bind_error m f = (case m of Inl e \<Rightarrow> Inl e | Inr x \<Rightarrow> f x)"

fun map_error :: "('a \<Rightarrow> error + 'b) \<Rightarrow> 'a list \<Rightarrow> error + 'b list" where
  "map_error f [] = Inr []"
| "map_error f (x # xs) =
     bind_error (f x) (\<lambda>y. bind_error (map_error f xs) (\<lambda>ys. Inr (y # ys)))"

subsection \<open>Splicings\<close>

fun psplicings :: "cka \<Rightarrow> (cka \<times> cka) list"
and nontrivial_psplicings :: "cka \<Rightarrow> (cka \<times> cka) list" where
  "psplicings t =
     set_union pair_str (nontrivial_psplicings t) (set_of pair_str [(t, One), (One, t)])"
| "nontrivial_psplicings Zero = []"
| "nontrivial_psplicings One = []"
| "nontrivial_psplicings (Primitive c) = []"
| "nontrivial_psplicings (Choice l r) = set_union pair_str (psplicings l) (psplicings r)"
| "nontrivial_psplicings (Sequential l r) =
     set_union pair_str
       (set_of pair_str [(g, h). (g, h) \<leftarrow> psplicings l, nullable r])
       (set_of pair_str [(g, h). (g, h) \<leftarrow> psplicings r, nullable l])"
| "nontrivial_psplicings (Parallel l r) =
     set_of pair_str
       [(floordiv g1 g2, floordiv h1 h2). (g1, h1) \<leftarrow> psplicings l, (g2, h2) \<leftarrow> psplicings r]"
| "nontrivial_psplicings (Star b) = psplicings b"

fun ssplicings :: "cka \<Rightarrow> (cka \<times> cka) list" where
  "ssplicings Zero = []"
| "ssplicings One = set_of pair_str [(One, One)]"
| "ssplicings (Primitive c) = set_of pair_str [(Primitive c, One), (One, Primitive c)]"
| "ssplicings (Choice l r) = set_union pair_str (ssplicings l) (ssplicings r)"
| "ssplicings (Sequential l r) =
     set_union pair_str
       (set_of pair_str [(pow l g, h). (g, h) \<leftarrow> ssplicings r])
       (set_of pair_str [(g, pow h r). (g, h) \<leftarrow> ssplicings l])"
| "ssplicings (Parallel l r) =
     set_of pair_str
       [(floordiv g1 g2, floordiv h1 h2). (g1, h1) \<leftarrow> ssplicings l, (g2, h2) \<leftarrow> ssplicings r]"
| "ssplicings (Star b) =
     set_union pair_str
       (set_of pair_str [(pow (Star b) g, pow h (Star b)). (g, h) \<leftarrow> ssplicings b])
       (set_of pair_str [(One, One)])"

subsection \<open>Remainders\<close>

text \<open>
  \<^verbatim>\<open>remainders\<close> calls itself inside its loop; the first argument bounds the depth
  of these calls, and \<open>None\<close> says that the bound was reached. The default value of
  \<^verbatim>\<open>seen\<close> is never updated in place, so a call without \<^verbatim>\<open>seen\<close> starts from the
  empty set. \<^verbatim>\<open>todo.pop()\<close> takes the elements of \<^verbatim>\<open>todo\<close> in list order.
\<close>

fun remainders_loop ::
  "(cka \<Rightarrow> cka list \<Rightarrow> cka list option) \<Rightarrow> (cka \<times> cka) list \<Rightarrow> cka list \<Rightarrow> cka list option"
where
  "remainders_loop rec [] remainders = Some remainders"
| "remainders_loop rec ((g, expand) # todo) remainders =
     (if \<not> set_member str remainders expand then
        (case rec expand remainders of
           None \<Rightarrow> None
         | Some r \<Rightarrow> remainders_loop rec todo (set_union str remainders r))
      else remainders_loop rec todo remainders)"

fun remainders :: "nat \<Rightarrow> cka \<Rightarrow> cka list \<Rightarrow> cka list option" where
  "remainders 0 self seen = None"
| "remainders (Suc n) self seen =
     remainders_loop (remainders n) (ssplicings self) (set_union str [self] seen)"

subsection \<open>Preclosure\<close>

text \<open>
  \<^verbatim>\<open>preclosure\<close>, \<^verbatim>\<open>linear_system\<close> and \<^verbatim>\<open>closure\<close> call each other; the closure
  that \<^verbatim>\<open>preclosure\<close> calls on the two sides of a splicing is its first argument.
\<close>

definition narrower :: "cka \<Rightarrow> cka \<Rightarrow> error + bool" where
  "narrower g self = bind_error (width g) (\<lambda>wg. bind_error (width self) (\<lambda>ws. Inr (wg < ws)))"

fun preclosure_items ::
  "(cka \<Rightarrow> error + cka) \<Rightarrow> cka \<Rightarrow> (cka \<times> cka) list \<Rightarrow> error + cka list" where
  "preclosure_items closure self [] = Inr []"
| "preclosure_items closure self ((g, h) # rest) =
     bind_error (narrower g self) (\<lambda>gn.
       bind_error (if gn then narrower h self else Inr False) (\<lambda>keep.
         if keep then
           bind_error (closure g) (\<lambda>cg.
             bind_error (closure h) (\<lambda>ch.
               bind_error (preclosure_items closure self rest) (\<lambda>items.
                 Inr (floordiv cg ch # items))))
         else preclosure_items closure self rest))"

fun preclosure :: "(cka \<Rightarrow> error + cka) \<Rightarrow> cka \<Rightarrow> error + cka" where
  "preclosure closure (Parallel left right) =
     bind_error (preclosure_items closure (Parallel left right) (psplicings (Parallel left right)))
       (\<lambda>items. Inr (sum_terms items (floordiv left right)))"
| "preclosure closure t = Inl AttributeError"


subsection \<open>Linear systems\<close>

record LinearSystem =
  symbols :: "cka list"
  matrix :: "((cka \<times> cka) \<times> cka) list"
  vector :: "(cka \<times> cka) list"

text \<open>The entry \<^verbatim>\<open>symbol.left // symbol.right\<close> of the vector.\<close>

fun vector_entry :: "cka \<Rightarrow> error + cka" where
  "vector_entry (Parallel left right) = Inr (floordiv left right)"
| "vector_entry t = Inl AttributeError"

text \<open>The entry of the matrix for \<^verbatim>\<open>(s1, s2)\<close>: a sum of preclosures, from \<^verbatim>\<open>Zero()\<close>.\<close>

fun matrix_entry :: "(cka \<Rightarrow> error + cka) \<Rightarrow> cka \<times> cka \<Rightarrow> error + cka" where
  "matrix_entry closure (Parallel left right, s2) =
     bind_error
       (map_error (\<lambda>(g1, g2). preclosure closure (Parallel g1 g2))
          [(g1, g2). (g1, h1) \<leftarrow> ssplicings left, (g2, h2) \<leftarrow> ssplicings right,
                     eq (Parallel h1 h2) s2])
       (\<lambda>items. Inr (sum_terms items Zero))"
| "matrix_entry closure (s1, s2) = Inl AttributeError"

definition linear_system ::
  "nat \<Rightarrow> (cka \<Rightarrow> error + cka) \<Rightarrow> cka \<Rightarrow> error + LinearSystem" where
  "linear_system fuel closure self =
     (case self of
        Parallel left right \<Rightarrow>
          (case remainders fuel left [] of
             None \<Rightarrow> Inl OutOfFuel
           | Some lrem \<Rightarrow>
               (case remainders fuel right [] of
                  None \<Rightarrow> Inl OutOfFuel
                | Some rrem \<Rightarrow>
                    (let symbols = set_of str [Parallel lprime rprime. lprime \<leftarrow> lrem, rprime \<leftarrow> rrem]
                     in bind_error
                          (map_error (\<lambda>symbol. bind_error (vector_entry symbol) (\<lambda>x. Inr (symbol, x)))
                             symbols)
                          (\<lambda>vector_items.
                             bind_error
                               (map_error (\<lambda>k. bind_error (matrix_entry closure k) (\<lambda>x. Inr (k, x)))
                                  [(s1, s2). s1 \<leftarrow> symbols, s2 \<leftarrow> symbols])
                               (\<lambda>matrix_items.
                                  Inr \<lparr>symbols = symbols,
                                       matrix = dict_of pair_str matrix_items,
                                       vector = dict_of str vector_items\<rparr>)))))
      | _ \<Rightarrow> Inl AttributeError)"

text \<open>
  The entries of the reduced system and of the solution at the eliminated symbol.
  \<^verbatim>\<open>**\<close> groups to the right and binds more tightly than \<^verbatim>\<open>+\<close>.
\<close>

definition subvector_entry :: "LinearSystem \<Rightarrow> cka \<Rightarrow> cka \<Rightarrow> error + cka" where
  "subvector_entry sys elim v =
     bind_error (getitem str (vector sys) v) (\<lambda>bv.
       bind_error (getitem pair_str (matrix sys) (v, elim)) (\<lambda>ave.
         bind_error (getitem str (vector sys) elim) (\<lambda>be.
           Inr (add bv (pow ave be)))))"

definition submatrix_entry :: "LinearSystem \<Rightarrow> cka \<Rightarrow> cka \<times> cka \<Rightarrow> error + cka" where
  "submatrix_entry sys elim k =
     (case k of (v1, v2) \<Rightarrow>
        bind_error (getitem pair_str (matrix sys) (v1, elim)) (\<lambda>a1e.
          bind_error (getitem pair_str (matrix sys) (elim, elim)) (\<lambda>aee.
            bind_error (getitem pair_str (matrix sys) (elim, v2)) (\<lambda>ae2.
              bind_error (getitem pair_str (matrix sys) (v1, v2)) (\<lambda>a12.
                Inr (add (pow a1e (pow (star aee) ae2)) a12))))))"

definition back_substitute ::
  "LinearSystem \<Rightarrow> cka \<Rightarrow> cka list \<Rightarrow> (cka \<times> cka) list \<Rightarrow> error + cka" where
  "back_substitute sys elim reuse solution =
     bind_error (getitem pair_str (matrix sys) (elim, elim)) (\<lambda>aee.
       bind_error (getitem str (vector sys) elim) (\<lambda>be.
         bind_error
           (map_error (\<lambda>v. bind_error (getitem pair_str (matrix sys) (elim, v)) (\<lambda>aev.
                             bind_error (getitem str solution v) (\<lambda>xv. Inr (pow aev xv))))
              reuse)
           (\<lambda>items. Inr (pow (star aee) (sum_terms items be)))))"

function solve :: "LinearSystem \<Rightarrow> error + (cka \<times> cka) list" where
  "solve sys =
     (case symbols sys of
        [] \<Rightarrow> Inl StopIteration
      | elim # others \<Rightarrow>
          (let reuse = set_minus str (symbols sys) [elim] in
           if reuse = [] then
             bind_error (getitem pair_str (matrix sys) (elim, elim)) (\<lambda>aee.
               bind_error (getitem str (vector sys) elim) (\<lambda>be.
                 Inr (dict_of str [(elim, pow (star aee) be)])))
           else
             bind_error
               (map_error (\<lambda>v. bind_error (subvector_entry sys elim v) (\<lambda>x. Inr (v, x))) reuse)
               (\<lambda>subvector.
                  bind_error
                    (map_error (\<lambda>k. bind_error (submatrix_entry sys elim k) (\<lambda>x. Inr (k, x)))
                       [(v1, v2). v1 \<leftarrow> reuse, v2 \<leftarrow> reuse])
                    (\<lambda>submatrix.
                       bind_error
                         (solve \<lparr>symbols = reuse,
                                 matrix = dict_of pair_str submatrix,
                                 vector = dict_of str subvector\<rparr>)
                         (\<lambda>solution.
                            bind_error (back_substitute sys elim reuse solution) (\<lambda>x.
                              Inr (setitem str solution elim x)))))))"
  by pat_completeness auto
termination
proof (relation "measure (\<lambda>sys. length (symbols sys))")
  show "wf (measure (\<lambda>sys. length (symbols sys)))" by simp
next
  fix sys :: LinearSystem and elim others reuse subvector submatrix
  assume s: "symbols sys = elim # others" and r: "reuse = set_minus str (symbols sys) [elim]"
  have "length (filter (\<lambda>x. str x \<noteq> str elim) others) < Suc (length others)"
    by (rule le_imp_less_Suc) (rule length_filter_le)
  with s r
  show "(\<lparr>symbols = reuse, matrix = dict_of pair_str submatrix, vector = dict_of str subvector\<rparr>, sys)
        \<in> measure (\<lambda>sys. length (symbols sys))"
    by (simp add: set_minus_def set_member_def)
qed

declare solve.simps [simp del]

subsection \<open>Closure\<close>

text \<open>
  The closure of a parallel term goes through \<^verbatim>\<open>linear_system\<close> and \<^verbatim>\<open>preclosure\<close>
  back to \<^verbatim>\<open>closure\<close>. The first argument bounds the depth of these calls and the
  depth of the calls inside \<^verbatim>\<open>remainders\<close>; \<open>OutOfFuel\<close> says that it was reached.
\<close>

fun closure :: "nat \<Rightarrow> cka \<Rightarrow> error + cka" where
  "closure n Zero = Inr Zero"
| "closure n One = Inr One"
| "closure n (Primitive c) = Inr (Primitive c)"
| "closure n (Choice l r) =
     bind_error (closure n l) (\<lambda>cl. bind_error (closure n r) (\<lambda>cr. Inr (add cl cr)))"
| "closure n (Sequential l r) =
     bind_error (closure n l) (\<lambda>cl. bind_error (closure n r) (\<lambda>cr. Inr (pow cl cr)))"
| "closure n (Star b) = bind_error (closure n b) (\<lambda>cb. Inr (star cb))"
| "closure 0 (Parallel l r) = Inl OutOfFuel"
| "closure (Suc n) (Parallel l r) =
     bind_error (linear_system (Suc n) (closure n) (Parallel l r)) (\<lambda>sys.
       bind_error (solve sys) (\<lambda>solution. getitem str solution (Parallel l r)))"

subsection \<open>Classes of terms\<close>

fun is_Star :: "cka \<Rightarrow> bool" where
  "is_Star (Star b) = True"
| "is_Star t = False"

text \<open>
  A letter is an arbitrary Python string. \<open>letters_ok\<close> excludes the empty letter
  and the letter that prints as the term \<^verbatim>\<open>One\<close>.
\<close>

fun letters_ok :: "cka \<Rightarrow> bool" where
  "letters_ok Zero = True"
| "letters_ok One = True"
| "letters_ok (Primitive letter) = (letter \<noteq> [] \<and> letter \<noteq> ''1'')"
| "letters_ok (Choice l r) = (letters_ok l \<and> letters_ok r)"
| "letters_ok (Sequential l r) = (letters_ok l \<and> letters_ok r)"
| "letters_ok (Parallel l r) = (letters_ok l \<and> letters_ok r)"
| "letters_ok (Star b) = letters_ok b"

fun subterms :: "cka \<Rightarrow> cka list" where
  "subterms (Choice l r) = Choice l r # subterms l @ subterms r"
| "subterms (Sequential l r) = Sequential l r # subterms l @ subterms r"
| "subterms (Parallel l r) = Parallel l r # subterms l @ subterms r"
| "subterms (Star b) = Star b # subterms b"
| "subterms t = [t]"

definition proper_subterms :: "cka \<Rightarrow> cka list" where
  "proper_subterms t = tl (subterms t)"

definition zero_free :: "cka \<Rightarrow> bool" where
  "zero_free t = (Zero \<notin> set (subterms t))"

text \<open>The terms that the builder interface can produce.\<close>

inductive built :: "cka \<Rightarrow> bool" where
  zero: "built Zero"
| one: "built One"
| primitive: "built (Primitive letter)"
| add: "built a \<Longrightarrow> built b \<Longrightarrow> built (add a b)"
| pow: "built a \<Longrightarrow> built b \<Longrightarrow> built (pow a b)"
| floordiv: "built a \<Longrightarrow> built b \<Longrightarrow> built (floordiv a b)"
| star: "built a \<Longrightarrow> built (star a)"

text \<open>
  A class of terms whose parallel splicings all have \<^verbatim>\<open>One\<close> on one side and a term
  contained in the term on the other side: primitives, their choices and stars, and
  sequential compositions of two sides that are not nullable.
\<close>

fun one_sided :: "cka \<Rightarrow> bool" where
  "one_sided (Primitive c) = True"
| "one_sided (Choice l r) = (one_sided l \<and> one_sided r)"
| "one_sided (Star b) = one_sided b"
| "one_sided (Sequential l r) = (\<not> nullable l \<and> \<not> nullable r)"
| "one_sided t = False"

text \<open>
  A class of terms that contain the composition of each of their parallel splicings:
  below choices and stars, a sequential composition has two sides that are not nullable
  and a parallel composition has two sides of the class above.
\<close>

fun splits_contained :: "cka \<Rightarrow> bool" where
  "splits_contained (Choice l r) = (splits_contained l \<and> splits_contained r)"
| "splits_contained (Star b) = splits_contained b"
| "splits_contained (Sequential l r) = (\<not> nullable l \<and> \<not> nullable r)"
| "splits_contained (Parallel l r) = (one_sided l \<and> one_sided r)"
| "splits_contained t = True"



subsection \<open>Width and triviality as the specification words them\<close>

text \<open>
  The specification's \<open>is_trivial\<close> and \<open>width\<close>, total on all closed terms: only
  \<^verbatim>\<open>Zero\<close> is trivial directly, a choice when both sides are, a sequential or
  parallel composition when either side is; the width is 0 for a trivial term.
\<close>

fun is_trivial_spec :: "cka \<Rightarrow> bool" where
  "is_trivial_spec Zero = True"
| "is_trivial_spec (Choice l r) = (is_trivial_spec l \<and> is_trivial_spec r)"
| "is_trivial_spec (Sequential l r) = (is_trivial_spec l \<or> is_trivial_spec r)"
| "is_trivial_spec (Parallel l r) = (is_trivial_spec l \<or> is_trivial_spec r)"
| "is_trivial_spec t = False"

fun nontrivial_width_spec :: "cka \<Rightarrow> nat"
and width_spec :: "cka \<Rightarrow> nat" where
  "width_spec t = (if is_trivial_spec t then 0 else nontrivial_width_spec t)"
| "nontrivial_width_spec Zero = 0"
| "nontrivial_width_spec One = 0"
| "nontrivial_width_spec (Primitive c) = 1"
| "nontrivial_width_spec (Star b) = width_spec b"
| "nontrivial_width_spec (Choice l r) = max (width_spec l) (width_spec r)"
| "nontrivial_width_spec (Sequential l r) = max (width_spec l) (width_spec r)"
| "nontrivial_width_spec (Parallel l r) = width_spec l + width_spec r"


subsection \<open>Variable elimination as the specification words it\<close>

text \<open>\<open>has_key key d k\<close> is the test \<^verbatim>\<open>k in d\<close> on a dictionary.\<close>

definition has_key :: "('k \<Rightarrow> 's) \<Rightarrow> ('k \<times> 'v) list \<Rightarrow> 'k \<Rightarrow> bool" where
  "has_key key d k = (case getitem key d k of Inl e \<Rightarrow> False | Inr v \<Rightarrow> True)"

text \<open>A system is total when its matrix and vector have an entry for all its symbols.\<close>

definition total_system :: "LinearSystem \<Rightarrow> bool" where
  "total_system sys =
     (list_all (\<lambda>s1. list_all (\<lambda>s2. has_key pair_str (matrix sys) (s1, s2)) (symbols sys))
        (symbols sys)
      \<and> list_all (\<lambda>s. has_key str (vector sys) s) (symbols sys))"

text \<open>The matrix and the vector of a system as functions \<open>A\<close> and \<open>b\<close> on symbols.\<close>

definition matrix_at :: "LinearSystem \<Rightarrow> cka \<Rightarrow> cka \<Rightarrow> cka" where
  "matrix_at sys s1 s2 =
     (case getitem pair_str (matrix sys) (s1, s2) of Inl e \<Rightarrow> Zero | Inr x \<Rightarrow> x)"

definition vector_at :: "LinearSystem \<Rightarrow> cka \<Rightarrow> cka" where
  "vector_at sys s = (case getitem str (vector sys) s of Inl e \<Rightarrow> Zero | Inr x \<Rightarrow> x)"

text \<open>
  The reduced system after eliminating \<open>e\<close>: \<open>b'(v) = b(v) + A(v,e) \<cdot> b(e)\<close> and
  \<open>A'(v1,v2) = A(v1,e) \<cdot> A(e,e)* \<cdot> A(e,v2) + A(v1,v2)\<close>.
\<close>

definition reduced_vector :: "(cka \<Rightarrow> cka \<Rightarrow> cka) \<Rightarrow> (cka \<Rightarrow> cka) \<Rightarrow> cka \<Rightarrow> cka \<Rightarrow> cka" where
  "reduced_vector A b e v = add (b v) (pow (A v e) (b e))"

definition reduced_matrix :: "(cka \<Rightarrow> cka \<Rightarrow> cka) \<Rightarrow> cka \<Rightarrow> cka \<Rightarrow> cka \<Rightarrow> cka" where
  "reduced_matrix A e v1 v2 = add (pow (A v1 e) (pow (star (A e e)) (A e v2))) (A v1 v2)"

text \<open>
  \<open>eliminate syms A b s\<close> is the solution \<open>X(s)\<close> when the symbols are eliminated in
  the order of the list \<open>syms\<close>: \<open>A(e,e)* \<cdot> b(e)\<close> for a single symbol, and otherwise
  the solution of the reduced system, with
  \<open>X(e) = A(e,e)* \<cdot> (b(e) + \<Sum>\<^sub>v A(e,v) \<cdot> X(v))\<close> at the eliminated symbol.
\<close>

fun eliminate :: "cka list \<Rightarrow> (cka \<Rightarrow> cka \<Rightarrow> cka) \<Rightarrow> (cka \<Rightarrow> cka) \<Rightarrow> cka \<Rightarrow> cka" where
  "eliminate [] A b s = Zero"
| "eliminate [e] A b s = pow (star (A e e)) (b e)"
| "eliminate (e # v # vs) A b s =
     (if eq s e then
        pow (star (A e e))
          (sum_terms
             (map (\<lambda>u. pow (A e u) (eliminate (v # vs) (reduced_matrix A e) (reduced_vector A b e) u))
                (v # vs))
             (b e))
      else eliminate (v # vs) (reduced_matrix A e) (reduced_vector A b e) s)"

subsection \<open>A finite set that holds all remainders\<close>

text \<open>
  \<open>reach t\<close> lists, by recursion on \<open>t\<close>, terms among which every chain of right
  components of sequential splicings from \<open>t\<close> stays; it bounds the depth of the
  calls of \<^verbatim>\<open>remainders\<close>. \<open>rights u\<close> is the set of right components of the
  sequential splicings of \<open>u\<close>.
\<close>

fun reach :: "cka \<Rightarrow> cka list" where
  "reach Zero = [Zero]"
| "reach One = [One]"
| "reach (Primitive c) = [Primitive c, One]"
| "reach (Choice l r) = Choice l r # reach l @ reach r"
| "reach (Sequential l r) = Sequential l r # map (\<lambda>h. pow h r) (reach l) @ reach r"
| "reach (Parallel l r) = Parallel l r # [floordiv h1 h2. h1 \<leftarrow> reach l, h2 \<leftarrow> reach r]"
| "reach (Star b) = Star b # One # map (\<lambda>h. pow h (Star b)) (reach b)"

definition rights :: "cka \<Rightarrow> cka set" where
  "rights u = snd ` set (ssplicings u)"

section \<open>Properties\<close>

subsection \<open>Printed forms\<close>

lemma precedes_simps [simp]:
  "precedes ClsZero c"
  "precedes c ClsChoice"
  "precedes ClsSequential ClsSequential" "precedes ClsStar ClsSequential"
  "precedes ClsParallel ClsParallel" "precedes ClsStar ClsParallel"
  "precedes ClsSequential ClsParallel"
  "precedes ClsStar ClsStar"
  "precedes ClsOne ClsStar = True" "precedes ClsPrimitive ClsStar = True"
  "precedes ClsChoice ClsStar = False" "precedes ClsSequential ClsStar = False"
  "precedes ClsParallel ClsStar = False"
  "precedes ClsChoice ClsSequential = False" "precedes ClsParallel ClsSequential = False"
  "precedes ClsChoice ClsParallel = False"
  by (cases c; simp add: precedes_def order_def)+

lemma length_bracket: "length (str t) \<le> length (bracket t c)"
  by simp

lemma str_Star_neq: "length (str b) \<le> length (str b') \<Longrightarrow> str b \<noteq> str (Star b')"
proof
  assume le: "length (str b) \<le> length (str b')" and e: "str b = str (Star b')"
  have "length (str (Star b')) = Suc (length (bracket b' ClsStar))" by simp
  with length_bracket [of b' ClsStar] le e show False by simp
qed

lemma str_nonempty: "letters_ok t \<Longrightarrow> str t \<noteq> []"
  by (induction t) auto

lemma bracket_nonempty: "letters_ok t \<Longrightarrow> bracket t c \<noteq> []"
  using str_nonempty [of t] by simp

lemma length_bracket_pos: "letters_ok t \<Longrightarrow> 0 < length (bracket t c)"
  using bracket_nonempty [of t c] by blast

lemma str_Choice_neq_One: "str (Choice l r) \<noteq> ''1''"
  by (auto dest!: arg_cong [where f = length] simp del: bracket.simps)

lemma str_Parallel_neq_One: "str (Parallel l r) \<noteq> ''1''"
  by (auto dest!: arg_cong [where f = length] simp del: bracket.simps
           simp: parallel_operator_def)

lemma str_Sequential_neq_One:
  assumes "letters_ok l" "letters_ok r"
  shows "str (Sequential l r) \<noteq> ''1''"
proof
  assume "str (Sequential l r) = ''1''"
  then have "length (bracket l ClsSequential) + length (bracket r ClsSequential) = 1"
    by (auto dest!: arg_cong [where f = length] simp del: bracket.simps)
  with length_bracket_pos [OF assms(1), of ClsSequential]
       length_bracket_pos [OF assms(2), of ClsSequential]
  show False by linarith
qed

lemma not_eq_One:
  "\<not> eq (Choice l r) One" "\<not> eq (Parallel l r) One"
  "letters_ok l \<Longrightarrow> letters_ok r \<Longrightarrow> \<not> eq (Sequential l r) One"
  using str_Choice_neq_One [of l r] str_Parallel_neq_One [of l r]
        str_Sequential_neq_One [of l r]
  by (simp_all add: eq_def del: bracket.simps)

lemma str_Choice_One: "str (Choice a One) \<noteq> str a"
  by simp

lemma str_Sequential_neq_left:
  assumes "letters_ok r"
  shows "str (Sequential (Star b) r) \<noteq> str (Star b)"
  using bracket_nonempty [OF assms, of ClsSequential] by (simp del: bracket.simps) simp

lemma str_Sequential_neq_right:
  assumes "letters_ok l"
  shows "str (Sequential l (Star b)) \<noteq> str (Star b)"
  using bracket_nonempty [OF assms, of ClsSequential] by (simp del: bracket.simps) simp

subsection \<open>The star simplifications of choice\<close>

lemma star_over_self [simp]: "\<not> star_over (Star b) (Star b)"
  using str_Star_neq [of b b] by (simp add: star_over_def eq_def del: str.simps)

lemma star_over_Star [simp]: "star_over (Star a) a"
  by (simp add: star_over_def eq_def)

lemma star_over_not_Star [simp]: "\<not> is_Star a \<Longrightarrow> \<not> star_over a b"
  by (cases a) (simp_all add: star_over_def)

lemma star_not_Star: "\<not> is_Star a \<Longrightarrow> a \<noteq> Zero \<Longrightarrow> a \<noteq> One \<Longrightarrow> star a = Star a"
  by (cases a) simp_all

text \<open>
  Claim C6, as the code has it: for every closed term \<open>a\<close> that is not itself a
  \<^verbatim>\<open>Star\<close>, the sums \<open>1 + a \<cdot> a*\<close>, \<open>1 + a* \<cdot> a\<close>, \<open>a \<cdot> a* + 1\<close> and \<open>a* \<cdot> a + 1\<close>,
  built with the smart constructors, are all equal to \<open>a*\<close> in printed form.
\<close>

theorem C6_star_identities:
  assumes "\<not> is_Star a"
  shows "eq (add One (pow a (star a))) (star a)
       \<and> eq (add One (pow (star a) a)) (star a)
       \<and> eq (add (pow a (star a)) One) (star a)
       \<and> eq (add (pow (star a) a) One) (star a)"
proof (cases "a = Zero \<or> a = One")
  case True
  then show ?thesis
    by (auto simp: add_def One_add_def Term_add_def pow_def eq_def)
next
  case False
  with assms have s: "star a = Star a" by (simp add: star_not_Star)
  from False assms show ?thesis unfolding s
    by (simp add: add_def One_add_def Sequential_add_def pow_def eq_def)
qed

theorem C6_star_identities_witness:
  "\<not> is_Star (Primitive ''a'')
   \<and> eq (add One (pow (Primitive ''a'') (star (Primitive ''a'')))) (star (Primitive ''a''))
   \<and> eq (add One (pow (star (Primitive ''a'')) (Primitive ''a''))) (star (Primitive ''a''))
   \<and> eq (add (pow (Primitive ''a'') (star (Primitive ''a''))) One) (star (Primitive ''a''))
   \<and> eq (add (pow (star (Primitive ''a'')) (Primitive ''a'')) One) (star (Primitive ''a''))"
  using C6_star_identities [of "Primitive ''a''"] by simp

text \<open>
  When \<open>a\<close> is the star \<open>p*\<close> of a primitive, \<open>a.star()\<close> is \<open>a\<close> itself and
  \<open>1 + a \<cdot> a.star()\<close> is the choice \<open>1 + p*p*\<close>, which does not print as \<open>p*\<close>.
\<close>

theorem C6_star_identities_counterexample:
  "\<not> eq (add One (pow (star (Primitive ''a'')) (star (star (Primitive ''a'')))))
         (star (star (Primitive ''a'')))"
  by (simp add: add_def One_add_def Term_add_def pow_def eq_def star_over_def)

subsection \<open>Nullable terms and the sum with One\<close>

lemma contains_One_nullable: "letters_ok t \<Longrightarrow> contains t One \<Longrightarrow> nullable t"
  by (induction t) (auto simp: not_eq_One, auto simp: eq_def)

lemma eq_One_contains: "eq a One \<Longrightarrow> contains a One"
  by (cases a) simp_all

lemma contains_One_sym: "contains One a \<Longrightarrow> contains a One"
  by (rule eq_One_contains) (simp add: eq_def)

lemma star_over_not_eq_One:
  assumes "star_over l r \<or> star_over r l"
  shows "\<not> eq (Sequential l r) One"
proof -
  have 1: "xs @ ''*'' @ ys \<noteq> ''1''" for xs ys :: string
    by (cases xs) auto
  have 2: "xs @ ys @ ''*'' \<noteq> ''1''" for xs ys :: string
    by (cases xs; cases ys) auto
  from assms show ?thesis
  proof
    assume "star_over l r"
    then obtain b where l: "l = Star b" by (cases l) (simp_all add: star_over_def)
    have "str (Sequential l r) = bracket b ClsStar @ ''*'' @ bracket r ClsSequential"
      by (simp add: l)
    with 1 show ?thesis by (simp add: eq_def del: str.simps(5) bracket.simps)
  next
    assume "star_over r l"
    then obtain b where r: "r = Star b" by (cases r) (simp_all add: star_over_def)
    have "str (Sequential l r) = bracket l ClsSequential @ bracket b ClsStar @ ''*''"
      by (simp add: r)
    with 2 show ?thesis by (simp add: eq_def del: str.simps(5) bracket.simps)
  qed
qed

lemma contains_One_sum: "contains a One \<Longrightarrow> add a One = a"
proof (cases a)
  case (Sequential l r)
  assume "contains a One"
  with Sequential have e: "eq (Sequential l r) One" by simp
  with star_over_not_eq_One [of l r] have "\<not> star_over l r" "\<not> star_over r l" by blast+
  with e show ?thesis
    unfolding Sequential by (simp add: add_def Sequential_add_def Term_add_def)
qed (auto simp: add_def One_add_def Term_add_def eq_def)

lemma Term_add_One_contains: "str (Term_add a One) = str a \<Longrightarrow> contains a One"
proof -
  assume e: "str (Term_add a One) = str a"
  show ?thesis
  proof (rule ccontr)
    assume n: "\<not> contains a One"
    with contains_One_sym have n': "\<not> contains One a" by blast
    show False
    proof (cases "a = Zero")
      case True
      with e show False by (simp add: Term_add_def)
    next
      case False
      with n n' e have "str (Choice a One) = str a" by (simp add: Term_add_def)
      with str_Choice_One show False by blast
    qed
  qed
qed

lemma sum_with_One_contains:
  assumes ok: "letters_ok a" and e: "str (add a One) = str a"
  shows "contains a One"
proof (cases a)
  case (Sequential l r)
  from ok Sequential have okl: "letters_ok l" and okr: "letters_ok r" by simp_all
  consider (left) "star_over l r" | (right) "\<not> star_over l r" "star_over r l"
    | (none) "\<not> star_over l r" "\<not> star_over r l"
    by blast
  then show ?thesis
  proof cases
    case left
    then obtain b where l: "l = Star b" by (cases l) (simp_all add: star_over_def)
    from left e have "str l = str (Sequential l r)"
      unfolding Sequential by (simp add: add_def Sequential_add_def del: str.simps)
    with str_Sequential_neq_left [OF okr, of b] l show ?thesis by simp
  next
    case right
    then obtain b where r: "r = Star b" by (cases r) (simp_all add: star_over_def)
    from right e have "str r = str (Sequential l r)"
      unfolding Sequential by (simp add: add_def Sequential_add_def del: str.simps)
    with str_Sequential_neq_right [OF okl, of b] r show ?thesis by simp
  next
    case none
    with e have "str (Term_add a One) = str a"
      unfolding Sequential by (simp add: add_def Sequential_add_def del: str.simps)
    then show ?thesis by (rule Term_add_One_contains)
  qed
next
  case One
  then show ?thesis by (simp add: eq_def)
next
  case (Star b)
  then show ?thesis by simp
next
  case Zero
  with e have "str (Term_add a One) = str a" by (simp add: add_def)
  then show ?thesis by (rule Term_add_One_contains)
next
  case (Primitive c)
  with e have "str (Term_add a One) = str a" by (simp add: add_def)
  then show ?thesis by (rule Term_add_One_contains)
next
  case (Choice l r)
  with e have "str (Term_add a One) = str a" by (simp add: add_def)
  then show ?thesis by (rule Term_add_One_contains)
next
  case (Parallel l r)
  with e have "str (Term_add a One) = str a" by (simp add: add_def)
  then show ?thesis by (rule Term_add_One_contains)
qed

text \<open>
  Claim C7, as the code has it: for every closed term \<open>a\<close>, if \<^verbatim>\<open>One\<close> is found in
  \<open>a\<close> by the containment test, as it is in the nullable terms \<open>1\<close>, \<open>a*\<close> and
  \<open>a + 1\<close>, then the smart sum \<open>a + One\<close> prints as \<open>a\<close>; and if the letters of \<open>a\<close>
  are not empty and differ from \<^verbatim>\<open>"1"\<close> and \<open>a + One\<close> prints as \<open>a\<close>, then \<open>a\<close> is
  nullable and \<^verbatim>\<open>One\<close> is found in \<open>a\<close>. So among the nullable terms the sum with
  \<^verbatim>\<open>One\<close> prints as the term exactly for those in which \<^verbatim>\<open>One\<close> is found.
\<close>

theorem C7_sum_with_One_nullable:
  "(contains a One \<longrightarrow> str (add a One) = str a)
   \<and> (letters_ok a \<and> str (add a One) = str a \<longrightarrow> nullable a \<and> contains a One)"
  using contains_One_sum [of a] sum_with_One_contains [of a] contains_One_nullable [of a]
  by auto

theorem C7_sum_with_One_nullable_witness:
  "nullable (star (pow (Primitive ''a'') (Primitive ''b'')))
   \<and> contains (star (pow (Primitive ''a'') (Primitive ''b''))) One
   \<and> letters_ok (star (pow (Primitive ''a'') (Primitive ''b'')))
   \<and> str (add (star (pow (Primitive ''a'') (Primitive ''b''))) One)
     = str (star (pow (Primitive ''a'') (Primitive ''b'')))"
proof -
  let ?t = "star (pow (Primitive ''a'') (Primitive ''b''))"
  have "nullable ?t" and "contains ?t One" and "letters_ok ?t" by code_simp+
  with C7_sum_with_One_nullable [of ?t] show ?thesis by blast
qed

text \<open>
  The sequence \<open>a*b*\<close> is nullable, but \<^verbatim>\<open>One\<close> is not found in it and \<open>a*b* + 1\<close> is a
  choice. A primitive with the letter \<^verbatim>\<open>"1"\<close> prints as \<^verbatim>\<open>One\<close> and absorbs it
  without being nullable; with the empty letter \<open>e\<close>, the sum \<open>e*e + 1\<close> is \<open>e*\<close>, which
  prints as \<open>e*e\<close> does.
\<close>

theorem C7_sum_with_One_nullable_counterexample:
  "\<not> (nullable (pow (star (Primitive ''a'')) (star (Primitive ''b'')))
      \<longleftrightarrow> str (add (pow (star (Primitive ''a'')) (star (Primitive ''b''))) One)
          = str (pow (star (Primitive ''a'')) (star (Primitive ''b''))))
   \<and> \<not> contains (pow (star (Primitive ''a'')) (star (Primitive ''b''))) One
   \<and> \<not> (nullable (Primitive ''1'')
      \<longleftrightarrow> str (add (Primitive ''1'') One) = str (Primitive ''1''))
   \<and> \<not> (nullable (pow (star (Primitive [])) (Primitive []))
      \<longleftrightarrow> str (add (pow (star (Primitive [])) (Primitive [])) One)
          = str (pow (star (Primitive [])) (Primitive [])))"
  by code_simp

subsection \<open>Zero under the smart constructors\<close>

lemma proper_subterms_simps:
  "set (proper_subterms (Choice l r)) = set (subterms l) \<union> set (subterms r)"
  "set (proper_subterms (Sequential l r)) = set (subterms l) \<union> set (subterms r)"
  "set (proper_subterms (Parallel l r)) = set (subterms l) \<union> set (subterms r)"
  "set (proper_subterms (Star b)) = set (subterms b)"
  "proper_subterms Zero = []" "proper_subterms One = []" "proper_subterms (Primitive c) = []"
  by (simp_all add: proper_subterms_def)

lemma subterms_proper: "set (subterms t) = insert t (set (proper_subterms t))"
  by (cases t) (simp_all add: proper_subterms_def)

lemma zero_free_simps [simp]:
  "\<not> zero_free Zero" "zero_free One" "zero_free (Primitive c)"
  "zero_free (Choice l r) = (zero_free l \<and> zero_free r)"
  "zero_free (Sequential l r) = (zero_free l \<and> zero_free r)"
  "zero_free (Parallel l r) = (zero_free l \<and> zero_free r)"
  "zero_free (Star b) = zero_free b"
  by (auto simp: zero_free_def)

lemma Term_add_zero_free:
  "a = Zero \<or> zero_free a \<Longrightarrow> b = Zero \<or> zero_free b
   \<Longrightarrow> Term_add a b = Zero \<or> zero_free (Term_add a b)"
  by (auto simp: Term_add_def)

lemma add_zero_free:
  "a = Zero \<or> zero_free a \<Longrightarrow> b = Zero \<or> zero_free b
   \<Longrightarrow> add a b = Zero \<or> zero_free (add a b)"
  by (cases a; cases b)
     (auto simp: add_def One_add_def Sequential_add_def Term_add_def)

lemma pow_zero_free:
  "a = Zero \<or> zero_free a \<Longrightarrow> b = Zero \<or> zero_free b
   \<Longrightarrow> pow a b = Zero \<or> zero_free (pow a b)"
  by (auto simp: pow_def)

lemma floordiv_zero_free:
  "a = Zero \<or> zero_free a \<Longrightarrow> b = Zero \<or> zero_free b
   \<Longrightarrow> floordiv a b = Zero \<or> zero_free (floordiv a b)"
  by (auto simp: floordiv_def)

lemma star_zero_free: "a = Zero \<or> zero_free a \<Longrightarrow> zero_free (star a)"
  by (cases a) auto

lemma built_zero_free: "built t \<Longrightarrow> t = Zero \<or> zero_free t"
proof (induction rule: built.induct)
  case (add a b)
  from add.IH show ?case by (rule add_zero_free)
next
  case (pow a b)
  from pow.IH show ?case by (rule pow_zero_free)
next
  case (floordiv a b)
  from floordiv.IH show ?case by (rule floordiv_zero_free)
next
  case (star a)
  then show ?case by (simp add: star_zero_free)
qed simp_all

lemma add_Zero: "add a Zero = a" "add Zero a = a"
  by (cases a; simp add: add_def One_add_def Sequential_add_def Term_add_def)+

text \<open>
  Claim C9: a term built through the smart constructors alone never has \<^verbatim>\<open>Zero\<close>
  as a proper subterm. Choice absorbs a \<^verbatim>\<open>Zero\<close> operand, sequential and parallel
  composition are \<^verbatim>\<open>Zero\<close> when an operand is, and the star of \<^verbatim>\<open>Zero\<close> is \<^verbatim>\<open>One\<close>.
\<close>

theorem C9_Zero_only_at_top:
  assumes "built t"
  shows "Zero \<notin> set (proper_subterms t)
       \<and> add a Zero = a \<and> add Zero a = a
       \<and> pow a Zero = Zero \<and> pow Zero a = Zero
       \<and> floordiv a Zero = Zero \<and> floordiv Zero a = Zero
       \<and> star Zero = One"
proof -
  from assms have "t = Zero \<or> zero_free t" by (rule built_zero_free)
  then have "Zero \<notin> set (proper_subterms t)"
    by (auto simp: zero_free_def subterms_proper proper_subterms_simps)
  then show ?thesis
    by (simp add: add_Zero pow_def floordiv_def)
qed

theorem C9_Zero_only_at_top_witness:
  "built (add (Primitive ''a'') (pow (Primitive ''b'') (star (floordiv (Primitive ''c'') Zero))))
   \<and> Zero \<notin> set (proper_subterms
        (add (Primitive ''a'') (pow (Primitive ''b'') (star (floordiv (Primitive ''c'') Zero)))))
   \<and> add (Primitive ''a'') Zero = Primitive ''a''"
  using C9_Zero_only_at_top
    [of "add (Primitive ''a'') (pow (Primitive ''b'') (star (floordiv (Primitive ''c'') Zero)))"
        "Primitive ''a''"]
  by (blast intro: built.intros)

subsection \<open>Sequential composition is associative in printed form\<close>

text \<open>
  Claim C10: for all closed terms \<open>a\<close>, \<open>b\<close>, \<open>c\<close> the smart compositions
  \<open>(a \<cdot> b) \<cdot> c\<close> and \<open>a \<cdot> (b \<cdot> c)\<close> are equal, that is, have the same printed form.
\<close>

theorem C10_pow_assoc: "eq (pow (pow a b) c) (pow a (pow b c))"
  by (simp add: pow_def eq_def)

subsection \<open>Width and triviality of Zero\<close>

text \<open>
  Claim C3 asks that \<^verbatim>\<open>width\<close> and \<^verbatim>\<open>is_trivial\<close> return on \<^verbatim>\<open>Zero\<close>. Both raise
  \<^verbatim>\<open>TypeError\<close>: \<^verbatim>\<open>Zero.is_trivial\<close> takes no \<^verbatim>\<open>self\<close>.
\<close>

theorem C3_Zero_raises: "is_trivial Zero = Inl TypeError \<and> width Zero = Inl TypeError"
  by simp

subsection \<open>Sets as lists\<close>

lemma set_member_iff: "set_member key xs x \<longleftrightarrow> key x \<in> key ` set xs"
  by (simp add: set_member_def)

lemma set_set_add: "set xs \<subseteq> set (set_add key xs x)" "set (set_add key xs x) \<subseteq> insert x (set xs)"
  by (auto simp: set_add_def)

lemma keys_set_add: "key ` set (set_add key xs x) = insert (key x) (key ` set xs)"
  by (auto simp: set_add_def set_member_def)

lemma set_set_union_aux:
  "set xs \<subseteq> set (foldl (set_add key) xs ys) \<and> set (foldl (set_add key) xs ys) \<subseteq> set xs \<union> set ys
   \<and> key ` set (foldl (set_add key) xs ys) = key ` set xs \<union> key ` set ys"
proof (induction ys arbitrary: xs)
  case Nil
  show ?case by simp
next
  case (Cons y ys)
  from Cons [of "set_add key xs y"] set_set_add [where xs = xs and key = key and x = y]
    keys_set_add [where xs = xs and key = key and x = y]
  show ?case by auto
qed

lemma set_union_sub: "set xs \<subseteq> set (set_union key xs ys)"
  and set_union_sup: "set (set_union key xs ys) \<subseteq> set xs \<union> set ys"
  and keys_set_union: "key ` set (set_union key xs ys) = key ` set xs \<union> key ` set ys"
  using set_set_union_aux [where xs = xs and key = key and ys = ys] by (simp_all add: set_union_def)

lemma set_of_sub: "set (set_of key xs) \<subseteq> set xs"
  and keys_set_of: "key ` set (set_of key xs) = key ` set xs"
  using set_set_union_aux [where xs = "[]" and key = key and ys = xs] by (simp_all add: set_of_def)

subsection \<open>Parallel splicings and containment\<close>

lemma contains_refl: "contains t t"
  by (induction t) (simp_all add: eq_def)

lemma floordiv_One: "floordiv t One = t" "floordiv One t = t"
  by (simp_all add: floordiv_def)

lemma psplicings_trivial:
  "set_member pair_str (psplicings t) (t, One)" "set_member pair_str (psplicings t) (One, t)"
  by (simp_all add: set_member_iff keys_set_union keys_set_of)

lemma psplicings_sub:
  "set (psplicings t) \<subseteq> set (nontrivial_psplicings t) \<union> {(t, One), (One, t)}"
  using set_union_sup [where key = pair_str and xs = "nontrivial_psplicings t"
                          and ys = "set_of pair_str [(t, One), (One, t)]"]
        set_of_sub [where key = pair_str and xs = "[(t, One), (One, t)]"]
  by auto


lemma set_product_elems:
  "p \<in> set [(f g1 g2, f' h1 h2). (g1, h1) \<leftarrow> xs, (g2, h2) \<leftarrow> ys]
   \<Longrightarrow> \<exists>g1 h1 g2 h2. (g1, h1) \<in> set xs \<and> (g2, h2) \<in> set ys \<and> p = (f g1 g2, f' h1 h2)"
  by fastforce



lemma nontrivial_psplicings_Parallel_elems:
  assumes "p \<in> set (nontrivial_psplicings (Parallel l r))"
  shows "\<exists>g1 h1 g2 h2. (g1, h1) \<in> set (psplicings l) \<and> (g2, h2) \<in> set (psplicings r)
           \<and> p = (floordiv g1 g2, floordiv h1 h2)"
proof -
  let ?L = "[(floordiv g1 g2, floordiv h1 h2). (g1, h1) \<leftarrow> psplicings l, (g2, h2) \<leftarrow> psplicings r]"
  have e: "nontrivial_psplicings (Parallel l r) = set_of pair_str ?L"
    by (simp only: nontrivial_psplicings.simps)
  from assms have "p \<in> set (set_of pair_str ?L)"
    unfolding e .
  with set_of_sub [where key = pair_str and xs = ?L] have "p \<in> set ?L"
    by (rule_tac subsetD)
  then show ?thesis by (rule set_product_elems)
qed

lemma concat_map_empty: "concat (map (\<lambda>(g, h). []) xs) = []"
  by (induction xs) auto

lemma nontrivial_psplicings_Sequential_empty:
  "\<not> nullable l \<Longrightarrow> \<not> nullable r \<Longrightarrow> nontrivial_psplicings (Sequential l r) = []"
  by (simp add: set_union_def set_of_def concat_map_empty del: psplicings.simps)

lemma nontrivial_psplicings_Choice_sub:
  "set (nontrivial_psplicings (Choice l r)) \<subseteq> set (psplicings l) \<union> set (psplicings r)"
  using set_union_sup [where key = pair_str and xs = "psplicings l" and ys = "psplicings r"]
  by (simp only: nontrivial_psplicings.simps)

lemma psplicings_cases:
  assumes "(g, h) \<in> set (psplicings t)"
  obtains (nontrivial) "(g, h) \<in> set (nontrivial_psplicings t)"
    | (left) "g = t" "h = One" | (right) "g = One" "h = t"
  using assms psplicings_sub [of t] by blast

lemma one_sided_psplicings:
  "one_sided t \<Longrightarrow> (g, h) \<in> set (psplicings t) \<Longrightarrow>
   (h = One \<and> g \<noteq> One \<and> g \<noteq> Zero \<and> contains t g)
   \<or> (g = One \<and> h \<noteq> One \<and> h \<noteq> Zero \<and> contains t h)"
proof (induction t arbitrary: g h)
  case (Primitive c)
  from Primitive.prems(2) show ?case
    by (cases rule: psplicings_cases) (simp_all add: eq_def)
next
  case (Choice l r)
  from Choice.prems(1) have ol: "one_sided l" and or: "one_sided r" by simp_all
  from Choice.prems(2) show ?case
  proof (cases rule: psplicings_cases)
    case nontrivial
    with nontrivial_psplicings_Choice_sub [of l r]
    consider "(g, h) \<in> set (psplicings l)" | "(g, h) \<in> set (psplicings r)" by blast
    then show ?thesis
    proof cases
      case 1
      from Choice.IH(1) [OF ol 1] show ?thesis by auto
    next
      case 2
      from Choice.IH(2) [OF or 2] show ?thesis by auto
    qed
  next
    case left
    then show ?thesis using contains_refl [of "Choice l r"] by simp
  next
    case right
    then show ?thesis using contains_refl [of "Choice l r"] by simp
  qed
next
  case (Star b)
  from Star.prems(1) have ob: "one_sided b" by simp
  from Star.prems(2) show ?case
  proof (cases rule: psplicings_cases)
    case nontrivial
    then have "(g, h) \<in> set (psplicings b)" by (simp only: nontrivial_psplicings.simps)
    from Star.IH [OF ob this] show ?thesis by auto
  next
    case left
    then show ?thesis using contains_refl [of "Star b"] by simp
  next
    case right
    then show ?thesis using contains_refl [of "Star b"] by simp
  qed
next
  case (Sequential l r)
  from Sequential.prems(1) have "\<not> nullable l" and "\<not> nullable r" by simp_all
  then have "nontrivial_psplicings (Sequential l r) = []"
    by (rule nontrivial_psplicings_Sequential_empty)
  with Sequential.prems(2) show ?case
    by (cases rule: psplicings_cases) (simp_all add: eq_def)
qed simp_all

lemma floordiv_Parallel: "a \<noteq> One \<Longrightarrow> a \<noteq> Zero \<Longrightarrow> b \<noteq> One \<Longrightarrow> b \<noteq> Zero
  \<Longrightarrow> floordiv a b = Parallel a b"
  by (simp add: floordiv_def)

lemma splits_contained_psplicings:
  "splits_contained t \<Longrightarrow> (g, h) \<in> set (psplicings t) \<Longrightarrow> contains t (floordiv g h)"
proof (induction t arbitrary: g h)
  case (Choice l r)
  from Choice.prems(1) have cl: "splits_contained l" and cr: "splits_contained r" by simp_all
  from Choice.prems(2) show ?case
  proof (cases rule: psplicings_cases)
    case nontrivial
    with nontrivial_psplicings_Choice_sub [of l r]
    consider "(g, h) \<in> set (psplicings l)" | "(g, h) \<in> set (psplicings r)" by blast
    then show ?thesis
    proof cases
      case 1
      from Choice.IH(1) [OF cl 1] show ?thesis by simp
    next
      case 2
      from Choice.IH(2) [OF cr 2] show ?thesis by simp
    qed
  next
    case left
    then show ?thesis using contains_refl [of "Choice l r"] by (simp only: floordiv_One)
  next
    case right
    then show ?thesis using contains_refl [of "Choice l r"] by (simp only: floordiv_One)
  qed
next
  case (Star b)
  from Star.prems(1) have cb: "splits_contained b" by simp
  from Star.prems(2) show ?case
  proof (cases rule: psplicings_cases)
    case nontrivial
    then have "(g, h) \<in> set (psplicings b)" by (simp only: nontrivial_psplicings.simps)
    from Star.IH [OF cb this] show ?thesis by simp
  next
    case left
    then show ?thesis using contains_refl [of "Star b"] by (simp only: floordiv_One)
  next
    case right
    then show ?thesis using contains_refl [of "Star b"] by (simp only: floordiv_One)
  qed
next
  case (Sequential l r)
  from Sequential.prems(1) have "\<not> nullable l" and "\<not> nullable r" by simp_all
  then have "nontrivial_psplicings (Sequential l r) = []"
    by (rule nontrivial_psplicings_Sequential_empty)
  with Sequential.prems(2) show ?case
  proof (cases rule: psplicings_cases)
    case left
    then show ?thesis using contains_refl [of "Sequential l r"] by (simp only: floordiv_One)
  next
    case right
    then show ?thesis using contains_refl [of "Sequential l r"] by (simp only: floordiv_One)
  qed simp
next
  case (Parallel l r)
  from Parallel.prems(1) have ol: "one_sided l" and or: "one_sided r" by simp_all
  from Parallel.prems(2) show ?case
  proof (cases rule: psplicings_cases)
    case nontrivial
    then obtain g1 h1 g2 h2
      where 1: "(g1, h1) \<in> set (psplicings l)" and 2: "(g2, h2) \<in> set (psplicings r)"
        and gh: "(g, h) = (floordiv g1 g2, floordiv h1 h2)"
      using nontrivial_psplicings_Parallel_elems by blast
    from one_sided_psplicings [OF ol 1]
    consider (l1) "h1 = One" "g1 \<noteq> One" "g1 \<noteq> Zero" "contains l g1"
      | (l2) "g1 = One" "h1 \<noteq> One" "h1 \<noteq> Zero" "contains l h1"
      by blast
    then show ?thesis
    proof cases
      case l1
      from one_sided_psplicings [OF or 2]
      consider (r1) "h2 = One" "g2 \<noteq> One" "g2 \<noteq> Zero" "contains r g2"
        | (r2) "g2 = One" "h2 \<noteq> One" "h2 \<noteq> Zero" "contains r h2"
        by blast
      then show ?thesis
      proof cases
        case r1
        with l1 gh have "floordiv g h = Parallel g1 g2" by (simp add: floordiv_def)
        with l1 r1 show ?thesis by simp
      next
        case r2
        with l1 gh have "floordiv g h = Parallel g1 h2" by (simp add: floordiv_def)
        with l1 r2 show ?thesis by simp
      qed
    next
      case l2
      from one_sided_psplicings [OF or 2]
      consider (r1) "h2 = One" "g2 \<noteq> One" "g2 \<noteq> Zero" "contains r g2"
        | (r2) "g2 = One" "h2 \<noteq> One" "h2 \<noteq> Zero" "contains r h2"
        by blast
      then show ?thesis
      proof cases
        case r1
        with l2 gh have "floordiv g h = Parallel g2 h1" by (simp add: floordiv_def)
        with l2 r1 show ?thesis by simp
      next
        case r2
        with l2 gh have "floordiv g h = Parallel h1 h2" by (simp add: floordiv_def)
        with l2 r2 show ?thesis by simp
      qed
    qed
  next
    case left
    then show ?thesis using contains_refl [of "Parallel l r"] by (simp only: floordiv_One)
  next
    case right
    then show ?thesis using contains_refl [of "Parallel l r"] by (simp only: floordiv_One)
  qed
next
  case Zero
  from Zero.prems(2) show ?case
    by (cases rule: psplicings_cases) (simp_all add: floordiv_def eq_def)
next
  case One
  from One.prems(2) show ?case
    by (cases rule: psplicings_cases) (simp_all add: floordiv_def eq_def)
next
  case (Primitive c)
  from Primitive.prems(2) show ?case
    by (cases rule: psplicings_cases) (simp_all add: floordiv_def eq_def)
qed

text \<open>
  Claim C5, as the code has it: for every closed term \<open>t\<close> the set \<open>P(t)\<close> contains
  \<open>(t, One)\<close> and \<open>(One, t)\<close>. The composition \<open>g \<parallel> h\<close> is contained in \<open>t\<close>
  for every pair \<open>(g, h)\<close> of \<open>P(t)\<close> when every sequential composition inside \<open>t\<close>
  has two sides that are not nullable and every parallel composition inside \<open>t\<close> has
  two sides built from primitives, sums, stars and such sequential compositions.
\<close>

theorem C5_psplicings:
  "set_member pair_str (psplicings t) (t, One)
   \<and> set_member pair_str (psplicings t) (One, t)
   \<and> contains t (floordiv t One) \<and> contains t (floordiv One t)
   \<and> (splits_contained t \<longrightarrow> (\<forall>(g, h) \<in> set (psplicings t). contains t (floordiv g h)))"
  using psplicings_trivial [of t] contains_refl [of t] splits_contained_psplicings [of t]
  by (auto simp only: floordiv_One)

theorem C5_psplicings_witness:
  "splits_contained (floordiv (star (Primitive ''a'')) (add (Primitive ''b'') (star (pow (Primitive ''c'') (Primitive ''d'')))))
   \<and> (Primitive ''a'', star (pow (Primitive ''c'') (Primitive ''d'')))
       \<in> set (psplicings (floordiv (star (Primitive ''a''))
                 (add (Primitive ''b'') (star (pow (Primitive ''c'') (Primitive ''d''))))))
   \<and> contains (floordiv (star (Primitive ''a''))
                 (add (Primitive ''b'') (star (pow (Primitive ''c'') (Primitive ''d'')))))
        (floordiv (Primitive ''a'') (star (pow (Primitive ''c'') (Primitive ''d''))))"
proof -
  let ?t = "floordiv (star (Primitive ''a''))
              (add (Primitive ''b'') (star (pow (Primitive ''c'') (Primitive ''d''))))"
  have 1: "splits_contained ?t" by code_simp
  have 2: "(Primitive ''a'', star (pow (Primitive ''c'') (Primitive ''d''))) \<in> set (psplicings ?t)"
    by code_simp
  from 1 2 C5_psplicings [of ?t] show ?thesis by blast
qed

text \<open>
  The containment fails outside this class. \<open>(a*, 1)\<close> is a parallel splicing of
  \<open>a*b*\<close> and \<open>(a, 1)\<close> one of \<open>ab*\<close>, since \<open>b*\<close> is nullable, but the
  containment test of a \<^verbatim>\<open>Sequential\<close> only compares printed forms. The test of a
  \<^verbatim>\<open>Parallel\<close> compares the two sides of the other term with the two sides of
  \<open>t\<close>, so it fails at the splicing \<open>(a \<parallel> c, b)\<close> of \<open>(a \<parallel> b) \<parallel> c\<close>, at the
  splicing \<open>(b, 1)\<close> of \<open>(a + 1) \<parallel> b\<close> and at the splicing \<open>(a \<parallel> c, 1)\<close> of
  \<open>ab* \<parallel> c\<close>.
\<close>

theorem C5_psplicings_counterexample:
  "(star (Primitive ''a''), One)
     \<in> set (psplicings (pow (star (Primitive ''a'')) (star (Primitive ''b''))))
   \<and> \<not> contains (pow (star (Primitive ''a'')) (star (Primitive ''b'')))
         (floordiv (star (Primitive ''a'')) One)
   \<and> (Primitive ''a'', One)
     \<in> set (psplicings (pow (Primitive ''a'') (star (Primitive ''b''))))
   \<and> \<not> contains (pow (Primitive ''a'') (star (Primitive ''b'')))
         (floordiv (Primitive ''a'') One)
   \<and> (floordiv (Primitive ''a'') (Primitive ''c''), Primitive ''b'')
     \<in> set (psplicings (floordiv (floordiv (Primitive ''a'') (Primitive ''b'')) (Primitive ''c'')))
   \<and> \<not> contains (floordiv (floordiv (Primitive ''a'') (Primitive ''b'')) (Primitive ''c''))
         (floordiv (floordiv (Primitive ''a'') (Primitive ''c'')) (Primitive ''b''))
   \<and> (Primitive ''b'', One)
     \<in> set (psplicings (floordiv (add (Primitive ''a'') One) (Primitive ''b'')))
   \<and> \<not> contains (floordiv (add (Primitive ''a'') One) (Primitive ''b''))
         (floordiv (Primitive ''b'') One)
   \<and> (floordiv (Primitive ''a'') (Primitive ''c''), One)
     \<in> set (psplicings (floordiv (pow (Primitive ''a'') (star (Primitive ''b''))) (Primitive ''c'')))
   \<and> \<not> contains (floordiv (pow (Primitive ''a'') (star (Primitive ''b''))) (Primitive ''c''))
         (floordiv (floordiv (Primitive ''a'') (Primitive ''c'')) One)"
  by code_simp

subsection \<open>Preclosure\<close>

lemma zero_free_is_trivial: "zero_free t \<Longrightarrow> is_trivial t = Inr False"
  by (induction t) simp_all

lemma zero_free_is_trivial_spec: "zero_free t \<Longrightarrow> \<not> is_trivial_spec t"
  by (induction t) simp_all





lemma bind_error_simps [simp]:
  "bind_error (Inl e) f = Inl e" "bind_error (Inr x) f = f x"
  by (simp_all add: bind_error_def)






text \<open>With a \<^verbatim>\<open>Zero\<close> inside, every call of \<^verbatim>\<open>width\<close> raises, and so does the preclosure.\<close>

lemma is_trivial_cases: "is_trivial t = Inl TypeError \<or> is_trivial t = Inr False"
  by (induction t) auto

lemma width_zero_free_or_raises:
  "(zero_free t \<longrightarrow> width t = Inr (width_spec t)) \<and> (\<not> zero_free t \<longrightarrow> width t = Inl TypeError)"
proof (induction t)
  case (Choice l r)
  with is_trivial_cases [of "Choice l r"] show ?case
    by (auto simp: zero_free_is_trivial zero_free_is_trivial_spec simp del: is_trivial.simps)
next
  case (Sequential l r)
  with is_trivial_cases [of "Sequential l r"] show ?case
    by (auto simp: zero_free_is_trivial zero_free_is_trivial_spec simp del: is_trivial.simps)
next
  case (Parallel l r)
  with is_trivial_cases [of "Parallel l r"] show ?case
    by (auto simp: zero_free_is_trivial zero_free_is_trivial_spec simp del: is_trivial.simps)
next
  case (Star b)
  then show ?case by (auto simp: zero_free_is_trivial_spec)
qed simp_all

lemma width_not_zero_free: "\<not> zero_free t \<Longrightarrow> width t = Inl TypeError"
  using width_zero_free_or_raises [of t] by blast

lemma width_Inl: "width t = Inl e \<Longrightarrow> e = TypeError"
  using width_zero_free_or_raises [of t] by (cases "zero_free t") (simp_all del: width.simps)

lemma narrower_not_zero_free: "\<not> zero_free self \<Longrightarrow> narrower g self = Inl TypeError"
  using width_Inl [of g] width_not_zero_free [of self]
  by (cases "width g") (simp_all add: narrower_def del: width.simps)

lemma psplicings_nonempty: "psplicings t \<noteq> []"
  using psplicings_trivial(1) [of t] by (auto simp: set_member_def simp del: psplicings.simps)

lemma preclosure_not_zero_free:
  assumes "\<not> zero_free (Parallel l r)"
  shows "preclosure clo (Parallel l r) = Inl TypeError"
proof -
  obtain g h ps where ps: "psplicings (Parallel l r) = (g, h) # ps"
    using psplicings_nonempty [of "Parallel l r"] by (cases "psplicings (Parallel l r)") auto
  have "preclosure_items clo (Parallel l r) ((g, h) # ps) = Inl TypeError"
    by (simp add: narrower_not_zero_free [OF assms] del: zero_free_simps)
  then show ?thesis by (simp only: preclosure.simps ps bind_error_simps)
qed

text \<open>
  Claim C2 asks that the preclosure of every \<open>Parallel l r\<close> is the sum of \<open>l \<parallel> r\<close>
  and the closures of its narrower splicings; for \<open>a \<parallel> 0\<close> that sum is \<^verbatim>\<open>Zero\<close>,
  since \<open>a // 0\<close> is \<^verbatim>\<open>Zero\<close> and no splicing is narrower than a term of width 0.
  The code raises \<^verbatim>\<open>TypeError\<close> there: the filter of \<^verbatim>\<open>preclosure\<close> calls
  \<^verbatim>\<open>width\<close>, which calls \<^verbatim>\<open>Zero.is_trivial\<close>.
\<close>

theorem C2_preclosure_Zero_raises:
  "preclosure clo (Parallel (Primitive ''a'') Zero) = Inl TypeError
   \<and> floordiv (Primitive ''a'') Zero = Zero
   \<and> filter (\<lambda>(g, h). width_spec g < width_spec (Parallel (Primitive ''a'') Zero)
                       \<and> width_spec h < width_spec (Parallel (Primitive ''a'') Zero))
        (psplicings (Parallel (Primitive ''a'') Zero)) = []"
proof (intro conjI)
  show "preclosure clo (Parallel (Primitive ''a'') Zero) = Inl TypeError"
    by (rule preclosure_not_zero_free) simp
  show "floordiv (Primitive ''a'') Zero = Zero"
    by (simp add: floordiv_def)
  have "width_spec (Parallel (Primitive ''a'') Zero) = 0" by simp
  then show "filter (\<lambda>(g, h). width_spec g < width_spec (Parallel (Primitive ''a'') Zero)
                       \<and> width_spec h < width_spec (Parallel (Primitive ''a'') Zero))
        (psplicings (Parallel (Primitive ''a'') Zero)) = []"
    by (simp only: not_less_zero simp_thms) (simp add: case_prod_beta del: psplicings.simps)
qed

subsection \<open>Solving a linear system\<close>

lemma getitem_key_cong: "key k = key k' \<Longrightarrow> getitem key d k = getitem key d k'"
  by (induction d) auto

lemma getitem_setitem:
  "getitem key (setitem key d k v) k' = (if key k = key k' then Inr v else getitem key d k')"
  by (induction d) auto

lemma getitem_foldl_setitem:
  assumes "\<And>x y. key x = key y \<Longrightarrow> f x = f y"
  shows "getitem key (foldl (\<lambda>d (k, v). setitem key d k v) d (map (\<lambda>k. (k, f k)) ks)) k
         = (if key k \<in> key ` set ks then Inr (f k) else getitem key d k)"
proof (induction ks arbitrary: d)
  case Nil
  show ?case by simp
next
  case (Cons x ks)
  show ?case using assms [of x k] by (simp add: Cons getitem_setitem)
qed

lemma getitem_dict_of_map:
  assumes "\<And>x y. key x = key y \<Longrightarrow> f x = f y" and "k \<in> set ks"
  shows "getitem key (dict_of key (map (\<lambda>k. (k, f k)) ks)) k = Inr (f k)"
  using assms(2) by (simp add: dict_of_def getitem_foldl_setitem [of key f, OF assms(1)])

lemma map_error_Inr: "(\<And>x. x \<in> set xs \<Longrightarrow> f x = Inr (g x)) \<Longrightarrow> map_error f xs = Inr (map g xs)"
  by (induction xs) simp_all

lemma set_minus_hd:
  "distinct (map str (e # vs)) \<Longrightarrow> set_minus str (e # vs) [e] = vs"
  by (auto simp: set_minus_def set_member_def filter_id_conv) (metis imageI)

lemma setitem_new:
  "key k \<notin> key ` fst ` set d \<Longrightarrow> setitem key d k v = d @ [(k, v)]"
  by (induction d) auto


lemma has_key_getitem: "has_key key d k \<Longrightarrow> \<exists>v. getitem key d k = Inr v"
  by (cases "getitem key d k") (simp_all add: has_key_def)

lemma matrix_lookup:
  assumes "total_system sys" "s1 \<in> set (symbols sys)" "s2 \<in> set (symbols sys)"
  shows "getitem pair_str (matrix sys) (s1, s2) = Inr (matrix_at sys s1 s2)"
proof -
  from assms have "has_key pair_str (matrix sys) (s1, s2)"
    by (simp add: total_system_def list_all_iff)
  then have "\<exists>v. getitem pair_str (matrix sys) (s1, s2) = Inr v"
    by (rule has_key_getitem)
  then obtain v where "getitem pair_str (matrix sys) (s1, s2) = Inr v" ..
  then show ?thesis by (simp add: matrix_at_def)
qed

lemma vector_lookup:
  assumes "total_system sys" "s \<in> set (symbols sys)"
  shows "getitem str (vector sys) s = Inr (vector_at sys s)"
proof -
  from assms have "has_key str (vector sys) s"
    by (simp add: total_system_def list_all_iff)
  then have "\<exists>v. getitem str (vector sys) s = Inr v"
    by (rule has_key_getitem)
  then obtain v where "getitem str (vector sys) s = Inr v" ..
  then show ?thesis by (simp add: vector_at_def)
qed

lemma matrix_at_cong:
  "str s1 = str t1 \<Longrightarrow> str s2 = str t2 \<Longrightarrow> matrix_at sys s1 s2 = matrix_at sys t1 t2"
  using getitem_key_cong [of pair_str "(s1, s2)" "(t1, t2)" "matrix sys"]
  by (simp add: matrix_at_def pair_str_def)

lemma vector_at_cong: "str s = str t \<Longrightarrow> vector_at sys s = vector_at sys t"
  using getitem_key_cong [of str s t "vector sys"] by (simp add: vector_at_def)

lemma eliminate_step:
  "vs \<noteq> [] \<Longrightarrow>
   eliminate (e # vs) A b s =
     (if eq s e then
        pow (star (A e e))
          (sum_terms
             (map (\<lambda>u. pow (A e u) (eliminate vs (reduced_matrix A e) (reduced_vector A b e) u)) vs)
             (b e))
      else eliminate vs (reduced_matrix A e) (reduced_vector A b e) s)"
  by (cases vs) simp_all

lemma eliminate_cong:
  assumes "\<And>v1 v2. v1 \<in> set vs \<Longrightarrow> v2 \<in> set vs \<Longrightarrow> A v1 v2 = A2 v1 v2"
    and "\<And>v. v \<in> set vs \<Longrightarrow> b v = b2 v"
  shows "eliminate vs A b s = eliminate vs A2 b2 s"
  using assms
proof (induction vs arbitrary: A b A2 b2 s)
  case Nil
  show ?case by simp
next
  case (Cons e vs)
  show ?case
  proof (cases vs)
    case Nil
    with Cons.prems show ?thesis by simp
  next
    case (Cons v ws)
    have A: "A x y = A2 x y" if "x \<in> set (e # vs)" "y \<in> set (e # vs)" for x y
      using that Cons.prems(1) by blast
    have b: "b x = b2 x" if "x \<in> set (e # vs)" for x
      using that Cons.prems(2) by blast
    have rec: "eliminate vs (reduced_matrix A e) (reduced_vector A b e) u
             = eliminate vs (reduced_matrix A2 e) (reduced_vector A2 b2 e) u" for u
    proof (rule Cons.IH)
      fix v1 v2 assume "v1 \<in> set vs" "v2 \<in> set vs"
      then show "reduced_matrix A e v1 v2 = reduced_matrix A2 e v1 v2"
        by (simp add: reduced_matrix_def A)
    next
      fix x assume "x \<in> set vs"
      then show "reduced_vector A b e x = reduced_vector A2 b2 e x"
        by (simp add: reduced_vector_def A b)
    qed
    have items: "map (\<lambda>u. pow (A e u) (eliminate vs (reduced_matrix A e) (reduced_vector A b e) u)) vs
               = map (\<lambda>u. pow (A2 e u) (eliminate vs (reduced_matrix A2 e) (reduced_vector A2 b2 e) u)) vs"
      by (rule map_cong) (simp_all add: rec A)
    from Cons have ne: "vs \<noteq> []" by simp
    show ?thesis
      unfolding eliminate_step [OF ne] items using rec A [of e e] b [of e] by simp
  qed
qed


lemma solve_base:
  assumes "symbols sys = [e]"
    and "getitem pair_str (matrix sys) (e, e) = Inr aee"
    and "getitem str (vector sys) e = Inr be"
  shows "solve sys = Inr [(e, pow (star aee) be)]"
  using assms
  by (subst solve.simps) (simp add: set_minus_def set_member_def dict_of_def)

lemma solve_step:
  assumes "symbols sys = e # vs" and "vs \<noteq> []" and "distinct (map str (e # vs))"
    and "map_error (\<lambda>v. bind_error (subvector_entry sys e v) (\<lambda>x. Inr (v, x))) vs = Inr subvector"
    and "map_error (\<lambda>k. bind_error (submatrix_entry sys e k) (\<lambda>x. Inr (k, x)))
           [(v1, v2). v1 \<leftarrow> vs, v2 \<leftarrow> vs] = Inr submatrix"
    and "solve \<lparr>symbols = vs, matrix = dict_of pair_str submatrix, vector = dict_of str subvector\<rparr>
           = Inr solution"
    and "back_substitute sys e vs solution = Inr x"
  shows "solve sys = Inr (setitem str solution e x)"
proof -
  from assms(3) have r: "set_minus str (e # vs) [e] = vs" by (rule set_minus_hd)
  show ?thesis
    by (subst solve.simps) (simp add: assms(1,2,4-7) r Let_def del: distinct.simps)
qed

text \<open>
  \<open>solve\<close> returns on a total system with symbols of different printed forms, and
  what it returns is the variable elimination in the iteration order of the symbols.
\<close>

lemma solve_eliminate:
  assumes "symbols sys \<noteq> []" and "distinct (map str (symbols sys))" and "total_system sys"
  shows "\<exists>X. solve sys = Inr X \<and> map fst X = rev (symbols sys)
           \<and> (\<forall>s \<in> set (symbols sys).
                 getitem str X s = Inr (eliminate (symbols sys) (matrix_at sys) (vector_at sys) s))"
proof -
  define syms where "syms = symbols sys"
  with assms have "syms \<noteq> []" "symbols sys = syms" "distinct (map str syms)" "total_system sys"
    by simp_all
  then show ?thesis
  proof (induction syms arbitrary: sys rule: list_nonempty_induct)
    case (single e)
    let ?A = "matrix_at sys" and ?b = "vector_at sys"
    from single have "getitem pair_str (matrix sys) (e, e) = Inr (?A e e)"
      and "getitem str (vector sys) e = Inr (?b e)"
      by (simp_all add: matrix_lookup vector_lookup)
    with single(1) have "solve sys = Inr [(e, pow (star (?A e e)) (?b e))]"
      by (rule solve_base)
    with single(1) show ?case by simp
  next
    case (cons e vs)
    let ?A = "matrix_at sys" and ?b = "vector_at sys"
    let ?A' = "reduced_matrix ?A e" and ?b' = "reduced_vector ?A ?b e"
    let ?ks = "[(v1, v2). v1 \<leftarrow> vs, v2 \<leftarrow> vs]"
    let ?subvector = "map (\<lambda>v. (v, ?b' v)) vs"
    let ?submatrix = "map (\<lambda>k. (k, case k of (v1, v2) \<Rightarrow> ?A' v1 v2)) ?ks"
    define sys' where
      "sys' = \<lparr>symbols = vs, matrix = dict_of pair_str ?submatrix, vector = dict_of str ?subvector\<rparr>"
    have syms': "symbols sys' = vs" by (simp add: sys'_def)
    note syms = \<open>symbols sys = e # vs\<close>
    note total = \<open>total_system sys\<close>
    from \<open>distinct (map str (e # vs))\<close>
    have dvs: "distinct (map str vs)" and enew: "str e \<notin> str ` set vs" by simp_all
    have A: "getitem pair_str (matrix sys) (s1, s2) = Inr (?A s1 s2)"
      if "s1 \<in> set (e # vs)" "s2 \<in> set (e # vs)" for s1 s2
      using that total syms by (simp add: matrix_lookup)
    have b: "getitem str (vector sys) s = Inr (?b s)" if "s \<in> set (e # vs)" for s
      using that total syms by (simp add: vector_lookup)
    have subv: "map_error (\<lambda>v. bind_error (subvector_entry sys e v) (\<lambda>x. Inr (v, x))) vs
                = Inr ?subvector"
      by (rule map_error_Inr) (simp add: subvector_entry_def A b reduced_vector_def)
    have subm: "map_error (\<lambda>k. bind_error (submatrix_entry sys e k) (\<lambda>x. Inr (k, x))) ?ks
                = Inr ?submatrix"
      by (rule map_error_Inr) (auto simp: submatrix_entry_def A reduced_matrix_def)
    have A'_cong: "(case x of (v1, v2) \<Rightarrow> ?A' v1 v2) = (case y of (v1, v2) \<Rightarrow> ?A' v1 v2)"
      if "pair_str x = pair_str y" for x y
    proof -
      obtain x1 x2 y1 y2 where x: "x = (x1, x2)" and y: "y = (y1, y2)"
        by (cases x, cases y) blast
      with that have s1: "str x1 = str y1" and s2: "str x2 = str y2"
        by (simp_all add: pair_str_def)
      have "matrix_at sys x1 x2 = matrix_at sys y1 y2" "matrix_at sys x1 e = matrix_at sys y1 e"
        "matrix_at sys e x2 = matrix_at sys e y2"
        using matrix_at_cong [OF s1 s2] matrix_at_cong [OF s1 refl] matrix_at_cong [OF refl s2]
        by blast+
      then show ?thesis by (simp add: x y reduced_matrix_def)
    qed
    have b'_cong: "?b' x = ?b' y" if "str x = str y" for x y
      using that matrix_at_cong [of x y e e sys] vector_at_cong [of x y sys]
      by (simp add: reduced_vector_def)
    have A': "getitem pair_str (matrix sys') (v1, v2) = Inr (?A' v1 v2)"
      if "v1 \<in> set vs" "v2 \<in> set vs" for v1 v2
    proof -
      from that have mem: "(v1, v2) \<in> set ?ks" by auto
      have "getitem pair_str (dict_of pair_str ?submatrix) (v1, v2)
            = Inr (case (v1, v2) of (v1, v2) \<Rightarrow> ?A' v1 v2)"
      proof (rule getitem_dict_of_map)
        fix x y :: "cka \<times> cka"
        assume "pair_str x = pair_str y"
        then show "(case x of (v1, v2) \<Rightarrow> ?A' v1 v2) = (case y of (v1, v2) \<Rightarrow> ?A' v1 v2)"
          by (rule A'_cong)
      next
        show "(v1, v2) \<in> set ?ks" by (rule mem)
      qed
      then show ?thesis by (simp add: sys'_def)
    qed
    have b': "getitem str (vector sys') v = Inr (?b' v)" if "v \<in> set vs" for v
    proof -
      have "getitem str (dict_of str ?subvector) v = Inr (?b' v)"
      proof (rule getitem_dict_of_map)
        fix x y :: cka
        assume "str x = str y"
        then show "?b' x = ?b' y" by (rule b'_cong)
      next
        show "v \<in> set vs" by (rule that)
      qed
      then show ?thesis by (simp add: sys'_def)
    qed
    have total': "total_system sys'"
      by (simp add: total_system_def list_all_iff has_key_def A' b' syms')
    have A'_at: "matrix_at sys' v1 v2 = ?A' v1 v2" if "v1 \<in> set vs" "v2 \<in> set vs" for v1 v2
      using A' [OF that] by (simp add: matrix_at_def)
    have b'_at: "vector_at sys' v = ?b' v" if "v \<in> set vs" for v
      using b' [OF that] by (simp add: vector_at_def)
    from cons.IH [of sys'] dvs total' syms'
    obtain X' where X': "solve sys' = Inr X'" and keys: "map fst X' = rev vs"
      and sol: "\<forall>s \<in> set vs. getitem str X' s
                  = Inr (eliminate vs (matrix_at sys') (vector_at sys') s)"
      by auto
    have elim: "eliminate vs (matrix_at sys') (vector_at sys') s = eliminate vs ?A' ?b' s" for s
      by (rule eliminate_cong) (simp_all add: A'_at b'_at)
    let ?x = "pow (star (?A e e))
                (sum_terms (map (\<lambda>u. pow (?A e u) (eliminate vs ?A' ?b' u)) vs) (?b e))"
    have items: "map_error (\<lambda>v. bind_error (getitem pair_str (matrix sys) (e, v)) (\<lambda>aev.
                     bind_error (getitem str X' v) (\<lambda>xv. Inr (pow aev xv)))) vs
                 = Inr (map (\<lambda>u. pow (?A e u) (eliminate vs ?A' ?b' u)) vs)"
      by (rule map_error_Inr) (simp add: A sol elim)
    have bsub: "back_substitute sys e vs X' = Inr ?x"
      by (simp add: back_substitute_def A b items)
    from syms \<open>vs \<noteq> []\<close> \<open>distinct (map str (e # vs))\<close> subv subm
      X' [unfolded sys'_def] bsub
    have res: "solve sys = Inr (setitem str X' e ?x)"
      by (rule solve_step)
    from enew keys have "str e \<notin> str ` fst ` set X'"
      by (metis image_set set_rev)
    then have app: "setitem str X' e ?x = X' @ [(e, ?x)]" by (rule setitem_new)
    have "getitem str (setitem str X' e ?x) s = Inr (eliminate (e # vs) ?A ?b s)"
      if "s \<in> set (e # vs)" for s
    proof (cases "s = e")
      case True
      with \<open>vs \<noteq> []\<close> show ?thesis by (simp add: getitem_setitem eliminate_step eq_def)
    next
      case False
      with that have "s \<in> set vs" by simp
      with enew have "str e \<noteq> str s" by (metis imageI)
      with \<open>s \<in> set vs\<close> \<open>vs \<noteq> []\<close> sol elim show ?thesis
        by (simp add: getitem_setitem eliminate_step eq_def)
    qed
    with res app keys syms show ?case by simp
  qed
qed

text \<open>
  Claim C1: for a linear system with a non-empty set of symbols (one element for each
  printed form), a total matrix and a total vector, \<open>solve\<close> returns a mapping that is
  defined on every symbol and is the solution of the variable elimination in the
  iteration order of the symbols: the base case for a single symbol, and otherwise the
  reduced system, its solution, and the back-substitution at the pivot.
\<close>

theorem C1_solve:
  assumes "symbols sys \<noteq> []" and "distinct (map str (symbols sys))" and "total_system sys"
  shows "\<exists>X. solve sys = Inr X \<and> map fst X = rev (symbols sys)
           \<and> (\<forall>s \<in> set (symbols sys).
                 getitem str X s = Inr (eliminate (symbols sys) (matrix_at sys) (vector_at sys) s))"
  using assms by (rule solve_eliminate)


theorem C1_solve_witness:
  "symbols \<lparr>symbols = [Primitive ''x'', Primitive ''y''],
             matrix = [((Primitive ''x'', Primitive ''x''), Primitive ''a''),
                       ((Primitive ''x'', Primitive ''y''), Primitive ''b''),
                       ((Primitive ''y'', Primitive ''x''), Zero),
                       ((Primitive ''y'', Primitive ''y''), One)],
             vector = [(Primitive ''x'', Primitive ''c''), (Primitive ''y'', Primitive ''d'')]\<rparr> \<noteq> []
   \<and> total_system
        \<lparr>symbols = [Primitive ''x'', Primitive ''y''],
         matrix = [((Primitive ''x'', Primitive ''x''), Primitive ''a''),
                   ((Primitive ''x'', Primitive ''y''), Primitive ''b''),
                   ((Primitive ''y'', Primitive ''x''), Zero),
                   ((Primitive ''y'', Primitive ''y''), One)],
         vector = [(Primitive ''x'', Primitive ''c''), (Primitive ''y'', Primitive ''d'')]\<rparr>
   \<and> (\<exists>X. solve
          \<lparr>symbols = [Primitive ''x'', Primitive ''y''],
           matrix = [((Primitive ''x'', Primitive ''x''), Primitive ''a''),
                     ((Primitive ''x'', Primitive ''y''), Primitive ''b''),
                     ((Primitive ''y'', Primitive ''x''), Zero),
                     ((Primitive ''y'', Primitive ''y''), One)],
           vector = [(Primitive ''x'', Primitive ''c''), (Primitive ''y'', Primitive ''d'')]\<rparr>
          = Inr X
        \<and> map fst X = [Primitive ''y'', Primitive ''x'']
        \<and> getitem str X (Primitive ''x'')
          = Inr (Sequential (Star (Primitive ''a''))
                   (Choice (Primitive ''c'') (Sequential (Primitive ''b'') (Primitive ''d'')))))"
proof -
  let ?S = "\<lparr>symbols = [Primitive ''x'', Primitive ''y''],
             matrix = [((Primitive ''x'', Primitive ''x''), Primitive ''a''),
                       ((Primitive ''x'', Primitive ''y''), Primitive ''b''),
                       ((Primitive ''y'', Primitive ''x''), Zero),
                       ((Primitive ''y'', Primitive ''y''), One)],
             vector = [(Primitive ''x'', Primitive ''c''), (Primitive ''y'', Primitive ''d'')]\<rparr>"
  have ne: "symbols ?S \<noteq> []" by simp
  have d: "distinct (map str (symbols ?S))" by simp
  have t: "total_system ?S" by (simp add: total_system_def has_key_def pair_str_def)
  have v: "eliminate (symbols ?S) (matrix_at ?S) (vector_at ?S) (Primitive ''x'')
           = Sequential (Star (Primitive ''a''))
               (Choice (Primitive ''c'') (Sequential (Primitive ''b'') (Primitive ''d'')))"
    by code_simp
  from C1_solve [OF ne d t] v ne t show ?thesis by auto
qed

subsection \<open>Remainders\<close>

lemma snd_set_of: "snd ` set (set_of pair_str xs) \<subseteq> snd ` set xs"
  using set_of_sub [where key = pair_str and xs = xs] by blast

lemma snd_set_union:
  "snd ` set (set_union pair_str xs ys) \<subseteq> snd ` set xs \<union> snd ` set ys"
  using set_union_sup [where key = pair_str and xs = xs and ys = ys] by blast

lemma rights_Zero: "rights Zero = {}"
  by (simp add: rights_def)

lemma rights_One: "rights One = {One}"
  by (simp add: rights_def set_of_def set_add_def set_member_def)

lemma rights_Primitive: "rights (Primitive c) \<subseteq> {One, Primitive c}"
  unfolding rights_def ssplicings.simps
  by (rule subset_trans [OF snd_set_of]) auto

lemma rights_Choice: "rights (Choice l r) \<subseteq> rights l \<union> rights r"
  unfolding rights_def ssplicings.simps by (rule snd_set_union)

lemma rights_Sequential: "rights (Sequential l r) \<subseteq> rights r \<union> (\<lambda>h. pow h r) ` rights l"
proof -
  let ?L = "[(pow l g, h). (g, h) \<leftarrow> ssplicings r]"
  let ?R = "[(g, pow h r). (g, h) \<leftarrow> ssplicings l]"
  have "rights (Sequential l r) \<subseteq> snd ` set (set_of pair_str ?L) \<union> snd ` set (set_of pair_str ?R)"
    unfolding rights_def ssplicings.simps by (rule snd_set_union)
  also have "\<dots> \<subseteq> snd ` set ?L \<union> snd ` set ?R"
    by (intro Un_mono snd_set_of)
  also have "\<dots> \<subseteq> rights r \<union> (\<lambda>h. pow h r) ` rights l"
    by (force simp: rights_def)
  finally show ?thesis .
qed

lemma rights_Parallel:
  "rights (Parallel l r) \<subseteq> {floordiv h1 h2 | h1 h2. h1 \<in> rights l \<and> h2 \<in> rights r}"
proof -
  let ?L = "[(floordiv g1 g2, floordiv h1 h2). (g1, h1) \<leftarrow> ssplicings l, (g2, h2) \<leftarrow> ssplicings r]"
  have "rights (Parallel l r) \<subseteq> snd ` set ?L"
    unfolding rights_def ssplicings.simps by (rule snd_set_of)
  also have "\<dots> \<subseteq> {floordiv h1 h2 | h1 h2. h1 \<in> rights l \<and> h2 \<in> rights r}"
    by (force simp: rights_def)
  finally show ?thesis .
qed

lemma rights_Star: "rights (Star b) \<subseteq> insert One ((\<lambda>h. pow h (Star b)) ` rights b)"
proof -
  let ?L = "[(pow (Star b) g, pow h (Star b)). (g, h) \<leftarrow> ssplicings b]"
  have "rights (Star b) \<subseteq> snd ` set (set_of pair_str ?L) \<union> snd ` set (set_of pair_str [(One, One)])"
    unfolding rights_def ssplicings.simps by (rule snd_set_union)
  also have "\<dots> \<subseteq> snd ` set ?L \<union> snd ` set [(One, One)]"
    by (intro Un_mono snd_set_of)
  also have "\<dots> \<subseteq> insert One ((\<lambda>h. pow h (Star b)) ` rights b)"
    by (force simp: rights_def)
  finally show ?thesis .
qed

lemma rights_pow: "rights (pow h r) \<subseteq> rights r \<union> (\<lambda>h'. pow h' r) ` rights h"
proof -
  consider (r1) "r = One" | (h1) "r \<noteq> One" "h = One" | (z) "r \<noteq> One" "h \<noteq> One" "r = Zero \<or> h = Zero"
    | (seq) "r \<noteq> One" "h \<noteq> One" "r \<noteq> Zero" "h \<noteq> Zero"
    by blast
  then show ?thesis
  proof cases
    case r1
    then have "pow h r = h" "(\<lambda>h'. pow h' r) ` rights h = rights h" by (simp_all add: pow_def)
    then show ?thesis by simp
  next
    case h1
    then have "pow h r = r" by (simp add: pow_def)
    then show ?thesis by simp
  next
    case z
    then have "pow h r = Zero" by (auto simp: pow_def)
    then show ?thesis by (simp add: rights_Zero)
  next
    case seq
    then have "pow h r = Sequential h r" by (simp add: pow_def)
    then show ?thesis by (simp add: rights_Sequential)
  qed
qed

lemma rights_floordiv:
  "rights (floordiv a b) \<subseteq> {floordiv h1 h2 | h1 h2. h1 \<in> rights a \<and> h2 \<in> rights b}"
proof -
  consider (b1) "b = One" | (a1) "b \<noteq> One" "a = One" | (z) "b \<noteq> One" "a \<noteq> One" "b = Zero \<or> a = Zero"
    | (par) "b \<noteq> One" "a \<noteq> One" "b \<noteq> Zero" "a \<noteq> Zero"
    by blast
  then show ?thesis
  proof cases
    case b1
    have "v \<in> {floordiv h1 h2 | h1 h2. h1 \<in> rights a \<and> h2 \<in> rights One}" if "v \<in> rights a" for v
      using that by (simp add: rights_One) (metis floordiv_One(1))
    with b1 show ?thesis by (auto simp: floordiv_One)
  next
    case a1
    have "v \<in> {floordiv h1 h2 | h1 h2. h1 \<in> rights One \<and> h2 \<in> rights b}" if "v \<in> rights b" for v
      using that by (simp add: rights_One) (metis floordiv_One(2))
    with a1 show ?thesis by (auto simp: floordiv_One)
  next
    case z
    then have "floordiv a b = Zero" by (auto simp: floordiv_def)
    then show ?thesis by (simp add: rights_Zero)
  next
    case par
    then have "floordiv a b = Parallel a b" by (simp add: floordiv_def)
    then show ?thesis by (simp add: rights_Parallel)
  qed
qed

lemma reach_self: "t \<in> set (reach t)"
  by (cases t) simp_all


lemma set_reach_Parallel:
  "set (reach (Parallel l r))
   = insert (Parallel l r) {floordiv h1 h2 | h1 h2. h1 \<in> set (reach l) \<and> h2 \<in> set (reach r)}"
  by (simp, blast)

lemma reach_closed: "u \<in> set (reach t) \<Longrightarrow> rights u \<subseteq> set (reach t)"
proof (induction t arbitrary: u)
  case Zero
  then show ?case by (simp add: rights_Zero)
next
  case One
  then show ?case by (simp add: rights_One)
next
  case (Primitive c)
  then show ?case using rights_Primitive [of c] by (auto simp: rights_One)
next
  case (Choice l r)
  have l: "rights l \<subseteq> set (reach l)" and r: "rights r \<subseteq> set (reach r)"
    by (simp_all add: Choice.IH reach_self)
  from Choice.prems consider "u = Choice l r" | "u \<in> set (reach l)" | "u \<in> set (reach r)"
    by auto
  then show ?case
  proof cases
    case 1
    with rights_Choice [of l r] l r show ?thesis by auto
  next
    case 2
    with Choice.IH(1) [of u] show ?thesis by auto
  next
    case 3
    with Choice.IH(2) [of u] show ?thesis by auto
  qed
next
  case (Sequential l r)
  have l: "rights l \<subseteq> set (reach l)" and r: "rights r \<subseteq> set (reach r)"
    by (simp_all add: Sequential.IH reach_self)
  from Sequential.prems
  consider "u = Sequential l r" | h where "h \<in> set (reach l)" "u = pow h r" | "u \<in> set (reach r)"
    by auto
  then show ?case
  proof cases
    case 1
    with rights_Sequential [of l r] l r show ?thesis by auto
  next
    case 2
    from 2(1) have "rights h \<subseteq> set (reach l)" by (rule Sequential.IH(1))
    with rights_pow [of h r] r 2(2) show ?thesis
      unfolding reach.simps set_simps set_append set_map by blast
  next
    case 3
    with Sequential.IH(2) [of u] show ?thesis by auto
  qed
next
  case (Parallel l r)
  have l: "rights l \<subseteq> set (reach l)" and r: "rights r \<subseteq> set (reach r)"
    by (simp_all add: Parallel.IH reach_self)
  from Parallel.prems
  consider "u = Parallel l r"
    | h1 h2 where "h1 \<in> set (reach l)" "h2 \<in> set (reach r)" "u = floordiv h1 h2"
    unfolding set_reach_Parallel by blast
  then show ?case
  proof cases
    case 1
    with rights_Parallel [of l r] l r show ?thesis
      unfolding set_reach_Parallel by blast
  next
    case 2
    from 2(1) have "rights h1 \<subseteq> set (reach l)" by (rule Parallel.IH(1))
    moreover from 2(2) have "rights h2 \<subseteq> set (reach r)" by (rule Parallel.IH(2))
    ultimately show ?thesis using rights_floordiv [of h1 h2] 2(3)
      unfolding set_reach_Parallel by blast
  qed
next
  case (Star b)
  have b: "rights b \<subseteq> set (reach b)"
    by (simp add: Star.IH reach_self)
  with rights_Star [of b] have s: "rights (Star b) \<subseteq> set (reach (Star b))" by auto
  from Star.prems
  consider "u = Star b" | "u = One" | h where "h \<in> set (reach b)" "u = pow h (Star b)"
    by auto
  then show ?case
  proof cases
    case 1
    with s show ?thesis by simp
  next
    case 2
    then show ?thesis by (simp add: rights_One)
  next
    case 3
    from 3(1) have "rights h \<subseteq> set (reach b)" by (rule Star.IH)
    with rights_pow [of h "Star b"] s 3(2) show ?thesis
      unfolding reach.simps set_simps set_append set_map by blast
  qed
qed


lemma remainders_loop_spec:
  fixes U :: "cka set"
  assumes fin: "finite (str ` U)"
    and REC: "\<And>e R. e \<in> U \<Longrightarrow> card (str ` U - str ` set (set_union str [e] R)) < n \<Longrightarrow>
              \<exists>R'. rec e R = Some R' \<and> set (set_union str [e] R) \<subseteq> set R'
                 \<and> (\<forall>u \<in> set R'. u \<in> set R \<or> str ` rights u \<subseteq> str ` set R')"
  shows "snd ` set todo \<subseteq> U \<Longrightarrow> card (str ` U - str ` set R) \<le> n \<Longrightarrow>
         \<exists>R'. remainders_loop rec todo R = Some R' \<and> set R \<subseteq> set R'
            \<and> str ` snd ` set todo \<subseteq> str ` set R'
            \<and> (\<forall>u \<in> set R'. u \<in> set R \<or> str ` rights u \<subseteq> str ` set R')"
proof (induction todo arbitrary: R)
  case Nil
  show ?case by simp
next
  case (Cons p todo)
  obtain g e where p: "p = (g, e)" by (cases p)
  from Cons.prems(1) p have eU: "e \<in> U" and todoU: "snd ` set todo \<subseteq> U" by auto
  show ?case
  proof (cases "set_member str R e")
    case True
    from Cons.IH [OF todoU Cons.prems(2)]
    obtain R' where all: "remainders_loop rec todo R = Some R' \<and> set R \<subseteq> set R'
      \<and> str ` snd ` set todo \<subseteq> str ` set R'
      \<and> (\<forall>u \<in> set R'. u \<in> set R \<or> str ` rights u \<subseteq> str ` set R')" ..
    then have R': "remainders_loop rec todo R = Some R'" "set R \<subseteq> set R'"
      "str ` snd ` set todo \<subseteq> str ` set R'"
      "\<forall>u \<in> set R'. u \<in> set R \<or> str ` rights u \<subseteq> str ` set R'"
      by blast+
    from True have "str e \<in> str ` set R" by (simp add: set_member_def)
    with R'(2) have ekey: "str e \<in> str ` set R'" by blast
    have "remainders_loop rec (p # todo) R = Some R'"
      using True R'(1) by (simp add: p)
    moreover from ekey R'(3) have "str ` snd ` set (p # todo) \<subseteq> str ` set R'"
      by (simp add: p)
    ultimately show ?thesis using R'(2,4) by (intro exI [of _ R'] conjI)
  next
    case False
    then have new: "str e \<notin> str ` set R" by (simp add: set_member_def)
    let ?D = "str ` U - str ` set R"
    from eU new have inD: "str e \<in> ?D" by simp
    have keys0: "str ` set (set_union str [e] R) = insert (str e) (str ` set R)"
      by (simp add: keys_set_union)
    have "str ` U - str ` set (set_union str [e] R) = ?D - {str e}"
      unfolding keys0 by blast
    moreover from fin inD have "card (?D - {str e}) < card ?D"
      by (intro card_Diff1_less) simp_all
    ultimately have "card (str ` U - str ` set (set_union str [e] R)) < n"
      using Cons.prems(2) by simp
    from REC [OF eU this]
    obtain Rr where "rec e R = Some Rr \<and> set (set_union str [e] R) \<subseteq> set Rr
      \<and> (\<forall>u \<in> set Rr. u \<in> set R \<or> str ` rights u \<subseteq> str ` set Rr)" ..
    then have Rr: "rec e R = Some Rr" "set (set_union str [e] R) \<subseteq> set Rr"
      "\<forall>u \<in> set Rr. u \<in> set R \<or> str ` rights u \<subseteq> str ` set Rr"
      by blast+
    let ?R2 = "set_union str R Rr"
    have sub2: "set R \<subseteq> set ?R2" by (rule set_union_sub)
    have sup2: "set ?R2 \<subseteq> set R \<union> set Rr" by (rule set_union_sup)
    have keys2: "str ` set ?R2 = str ` set R \<union> str ` set Rr" by (rule keys_set_union)
    have "str ` U - str ` set ?R2 \<subseteq> ?D" unfolding keys2 by blast
    with fin have "card (str ` U - str ` set ?R2) \<le> card ?D"
      by (intro card_mono) simp_all
    with Cons.prems(2) have "card (str ` U - str ` set ?R2) \<le> n" by simp
    from Cons.IH [OF todoU this]
    obtain R' where "remainders_loop rec todo ?R2 = Some R' \<and> set ?R2 \<subseteq> set R'
      \<and> str ` snd ` set todo \<subseteq> str ` set R'
      \<and> (\<forall>u \<in> set R'. u \<in> set ?R2 \<or> str ` rights u \<subseteq> str ` set R')" ..
    then have R': "remainders_loop rec todo ?R2 = Some R'" "set ?R2 \<subseteq> set R'"
      "str ` snd ` set todo \<subseteq> str ` set R'"
      "\<forall>u \<in> set R'. u \<in> set ?R2 \<or> str ` rights u \<subseteq> str ` set R'"
      by blast+
    have kRr: "str ` set Rr \<subseteq> str ` set R'"
      using keys2 R'(2) by blast
    have "e \<in> set (set_union str [e] R)"
      using set_union_sub [where key = str and xs = "[e]" and ys = R] by simp
    with Rr(2) kRr have ekey: "str e \<in> str ` set R'" by blast
    have closed: "u \<in> set R \<or> str ` rights u \<subseteq> str ` set R'" if "u \<in> set R'" for u
    proof -
      from that R'(4) consider "u \<in> set ?R2" | "str ` rights u \<subseteq> str ` set R'" by blast
      then show ?thesis
      proof cases
        case 1
        with sup2 consider "u \<in> set R" | "u \<in> set Rr" by blast
        then show ?thesis
        proof cases
          case 1
          then show ?thesis by simp
        next
          case 2
          with Rr(3) kRr show ?thesis by blast
        qed
      next
        case 2
        then show ?thesis by simp
      qed
    qed
    have "remainders_loop rec (p # todo) R = Some R'"
      using False Rr(1) R'(1) by (simp add: p)
    moreover from sub2 R'(2) have "set R \<subseteq> set R'" by blast
    moreover from ekey R'(3) have "str ` snd ` set (p # todo) \<subseteq> str ` set R'"
      by (simp add: p)
    moreover from closed
    have "\<forall>u \<in> set R'. u \<in> set R \<or> str ` rights u \<subseteq> str ` set R'" by blast
    ultimately show ?thesis by (intro exI [of _ R'] conjI)
  qed
qed

lemma remainders_spec:
  fixes U :: "cka set"
  assumes fin: "finite (str ` U)" and closed: "\<And>u. u \<in> U \<Longrightarrow> rights u \<subseteq> U"
  shows "self \<in> U \<Longrightarrow> card (str ` U - str ` set (set_union str [self] seen)) < n \<Longrightarrow>
         \<exists>R. remainders n self seen = Some R \<and> set (set_union str [self] seen) \<subseteq> set R
            \<and> (\<forall>u \<in> set R. u \<in> set seen \<or> str ` rights u \<subseteq> str ` set R)"
proof (induction n arbitrary: self seen)
  case 0
  then show ?case by simp
next
  case (Suc n)
  let ?R0 = "set_union str [self] seen"
  from closed [OF Suc.prems(1)] have todo: "snd ` set (ssplicings self) \<subseteq> U"
    by (simp add: rights_def)
  from Suc.prems(2) have le: "card (str ` U - str ` set ?R0) \<le> n" by simp
  have "\<exists>R'. remainders_loop (remainders n) (ssplicings self) ?R0 = Some R' \<and> set ?R0 \<subseteq> set R'
            \<and> str ` snd ` set (ssplicings self) \<subseteq> str ` set R'
            \<and> (\<forall>u \<in> set R'. u \<in> set ?R0 \<or> str ` rights u \<subseteq> str ` set R')"
    using fin Suc.IH todo le by (rule remainders_loop_spec)
  then obtain R' where "remainders_loop (remainders n) (ssplicings self) ?R0 = Some R'
    \<and> set ?R0 \<subseteq> set R' \<and> str ` snd ` set (ssplicings self) \<subseteq> str ` set R'
    \<and> (\<forall>u \<in> set R'. u \<in> set ?R0 \<or> str ` rights u \<subseteq> str ` set R')" ..
  then have R': "remainders_loop (remainders n) (ssplicings self) ?R0 = Some R'"
    "set ?R0 \<subseteq> set R'" "str ` snd ` set (ssplicings self) \<subseteq> str ` set R'"
    "\<forall>u \<in> set R'. u \<in> set ?R0 \<or> str ` rights u \<subseteq> str ` set R'"
    by blast+
  have sup0: "set ?R0 \<subseteq> insert self (set seen)"
    using set_union_sup [where key = str and xs = "[self]" and ys = seen] by simp
  have "u \<in> set seen \<or> str ` rights u \<subseteq> str ` set R'" if "u \<in> set R'" for u
  proof -
    from that R'(4) sup0 consider "u = self" | "u \<in> set seen" | "str ` rights u \<subseteq> str ` set R'"
      by blast
    then show ?thesis
    proof cases
      case 1
      with R'(3) show ?thesis by (simp add: rights_def)
    qed simp_all
  qed
  then have "\<forall>u \<in> set R'. u \<in> set seen \<or> str ` rights u \<subseteq> str ` set R'" by blast
  moreover from R'(1) have "remainders (Suc n) self seen = Some R'" by simp
  ultimately show ?case using R'(2) by (intro exI [of _ R'] conjI)
qed

lemma remainders_loop_mono:
  assumes "\<And>e R r. rec e R = Some r \<Longrightarrow> rec' e R = Some r"
  shows "remainders_loop rec todo R = Some r \<Longrightarrow> remainders_loop rec' todo R = Some r"
proof (induction todo arbitrary: R)
  case Nil
  then show ?case by simp
next
  case (Cons p todo)
  obtain g e where p: "p = (g, e)" by (cases p)
  show ?case
  proof (cases "set_member str R e")
    case True
    with Cons show ?thesis by (simp add: p)
  next
    case False
    with Cons.prems obtain x where x: "rec e R = Some x"
      and rest: "remainders_loop rec todo (set_union str R x) = Some r"
      by (auto simp: p split: option.splits)
    from x have "rec' e R = Some x" by (rule assms)
    with False Cons.IH [OF rest] show ?thesis by (simp add: p)
  qed
qed

lemma remainders_mono: "remainders n self seen = Some r \<Longrightarrow> remainders (Suc n) self seen = Some r"
proof (induction n arbitrary: self seen r)
  case 0
  then show ?case by simp
next
  case (Suc n)
  from Suc.prems
  have "remainders_loop (remainders n) (ssplicings self) (set_union str [self] seen) = Some r"
    by simp
  then have "remainders_loop (remainders (Suc n)) (ssplicings self) (set_union str [self] seen) = Some r"
    using Suc.IH by (rule remainders_loop_mono [rotated])
  then show ?case by simp
qed

lemma remainders_mono_le:
  "n \<le> m \<Longrightarrow> remainders n self seen = Some r \<Longrightarrow> remainders m self seen = Some r"
  by (induction m) (auto simp: le_Suc_eq remainders_mono simp del: remainders.simps)

text \<open>
  Claim C4: for every closed term \<open>t\<close> the call \<^verbatim>\<open>t.remainders()\<close> returns: from some
  depth bound on, \<open>remainders\<close> yields one and the same finite set \<open>R\<close>. \<open>R\<close> contains
  \<open>t\<close>, and for every \<open>u\<close> in \<open>R\<close> and every sequential splicing \<open>(g, v)\<close> of \<open>u\<close>,
  \<open>v\<close> is in \<open>R\<close> (membership in a set of terms compares printed forms).
\<close>

theorem C4_remainders:
  "\<exists>N R. (\<forall>n \<ge> N. remainders n t [] = Some R) \<and> t \<in> set R
         \<and> (\<forall>u \<in> set R. \<forall>(g, v) \<in> set (ssplicings u). set_member str R v)"
proof -
  let ?U = "set (reach t)"
  let ?N = "Suc (card (str ` ?U - str ` set (set_union str [t] [])))"
  have "\<exists>R. remainders ?N t [] = Some R \<and> set (set_union str [t] []) \<subseteq> set R
          \<and> (\<forall>u \<in> set R. u \<in> set [] \<or> str ` rights u \<subseteq> str ` set R)"
  proof (rule remainders_spec)
    show "finite (str ` ?U)" by simp
    show "rights u \<subseteq> ?U" if "u \<in> ?U" for u using that by (rule reach_closed)
    show "t \<in> ?U" by (rule reach_self)
    show "card (str ` ?U - str ` set (set_union str [t] [])) < ?N" by simp
  qed
  then obtain R where R: "remainders ?N t [] = Some R" "set (set_union str [t] []) \<subseteq> set R"
    "\<forall>u \<in> set R. str ` rights u \<subseteq> str ` set R"
    by auto
  from R(1) have "\<forall>n \<ge> ?N. remainders n t [] = Some R"
    by (blast intro: remainders_mono_le)
  moreover from R(2) have "t \<in> set R" by (simp add: set_union_def set_add_def set_member_def)
  moreover from R(3) have "\<forall>u \<in> set R. \<forall>(g, v) \<in> set (ssplicings u). set_member str R v"
    by (force simp: rights_def set_member_def)
  ultimately show ?thesis by blast
qed


theorem C4_remainders_witness:
  "\<exists>N R. remainders N (Primitive ''a'') [] = Some R \<and> Primitive ''a'' \<in> set R
         \<and> (One, Primitive ''a'') \<in> set (ssplicings (Primitive ''a''))
         \<and> set_member str R (Primitive ''a'')
         \<and> (Primitive ''a'', One) \<in> set (ssplicings (Primitive ''a''))
         \<and> set_member str R One"
proof -
  from C4_remainders [of "Primitive ''a''"]
  obtain N R where "(\<forall>n \<ge> N. remainders n (Primitive ''a'') [] = Some R)
      \<and> Primitive ''a'' \<in> set R
      \<and> (\<forall>u \<in> set R. \<forall>(g, v) \<in> set (ssplicings u). set_member str R v)"
    by blast
  then have r: "remainders N (Primitive ''a'') [] = Some R" and t: "Primitive ''a'' \<in> set R"
    and c: "\<forall>(g, v) \<in> set (ssplicings (Primitive ''a'')). set_member str R v"
    by blast+
  have 1: "(One, Primitive ''a'') \<in> set (ssplicings (Primitive ''a''))"
    and 2: "(Primitive ''a'', One) \<in> set (ssplicings (Primitive ''a''))"
    by code_simp+
  from c 1 have "set_member str R (Primitive ''a'')" by blast
  moreover from c 2 have "set_member str R One" by blast
  ultimately show ?thesis using r t 1 2 by blast
qed

subsection \<open>A larger depth bound keeps the result\<close>










subsection \<open>The closure returns\<close>































subsection \<open>Closure and the smart constructors\<close>




















end
